theory Spec2Isabelle
  imports Main "HOL-Library.Log_Nat"
begin

section \<open>Python floats\<close>

text \<open>
  The program computes with Python floats, that is IEEE 754 binary64 numbers under
  round-to-nearest, ties-to-even. A float is modelled by its value: a rational number,
  or one of the three special values. The doubles are the values that \<open>float_of_rat\<close>
  returns; the operations are defined on every rational, so a statement about every
  \<open>pyfloat\<close> holds of every double. The two zeros are one value, and the int results
  \<open>0\<close> and \<open>100\<close> that \<open>max(0, ...)\<close> and \<open>min(100, ...)\<close> return are the floats of
  the same value (Python compares them equal, and every operation below gives the same
  value on either).
\<close>

datatype pyfloat = Fin rat | PInf | NInf | NaN

datatype error = KeyError string | ZeroDivisionError | OverflowError | IndexError | TypeError

text \<open>Rounding a rational to the nearest integer, ties to the even one.\<close>

definition round_half_even :: "rat \<Rightarrow> int" where
  "round_half_even q =
     (let f = \<lfloor>q\<rfloor>; d = q - of_int f
      in if d < 1 / 2 then f else if 1 / 2 < d then f + 1 else if even f then f else f + 1)"

text \<open>The binary exponent of a positive rational: \<open>2 powi (ilog2 q) \<le> q < 2 powi (ilog2 q + 1)\<close>.\<close>

definition ilog2 :: "rat \<Rightarrow> int" where
  "ilog2 q = (if 1 \<le> q then bitlen \<lfloor>q\<rfloor> - 1 else - bitlen (\<lceil>1 / q\<rceil> - 1))"

text \<open>
  The binary64 number nearest to a rational: 53 significant bits, the spacing never finer
  than \<open>2 powi (- 1074)\<close> (the subnormal range), and an infinity from
  \<open>2 ^ 1024 - 2 ^ 970\<close> on (the largest finite double plus half its spacing).
\<close>

definition float_of_rat :: "rat \<Rightarrow> pyfloat" where
  "float_of_rat q =
     (if q = 0 then Fin 0
      else if 2 ^ 1024 - 2 ^ 970 \<le> \<bar>q\<bar> then (if 0 < q then PInf else NInf)
      else let u = 2 powi (max (ilog2 \<bar>q\<bar> - 52) (- 1074))
           in Fin (of_int (round_half_even (q / u)) * u))"

definition inf_of_sign :: "bool \<Rightarrow> pyfloat" where
  "inf_of_sign positive = (if positive then PInf else NInf)"

fun fadd :: "pyfloat \<Rightarrow> pyfloat \<Rightarrow> pyfloat" where
  "fadd (Fin a) (Fin b) = float_of_rat (a + b)"
| "fadd NaN y = NaN"
| "fadd x NaN = NaN"
| "fadd PInf NInf = NaN"
| "fadd NInf PInf = NaN"
| "fadd PInf y = PInf"
| "fadd NInf y = NInf"
| "fadd (Fin a) y = y"

fun fsub :: "pyfloat \<Rightarrow> pyfloat \<Rightarrow> pyfloat" where
  "fsub (Fin a) (Fin b) = float_of_rat (a - b)"
| "fsub NaN y = NaN"
| "fsub x NaN = NaN"
| "fsub PInf PInf = NaN"
| "fsub NInf NInf = NaN"
| "fsub PInf y = PInf"
| "fsub NInf y = NInf"
| "fsub (Fin a) PInf = NInf"
| "fsub (Fin a) NInf = PInf"

fun fmul :: "pyfloat \<Rightarrow> pyfloat \<Rightarrow> pyfloat" where
  "fmul (Fin a) (Fin b) = float_of_rat (a * b)"
| "fmul NaN y = NaN"
| "fmul x NaN = NaN"
| "fmul (Fin a) PInf = (if a = 0 then NaN else inf_of_sign (0 < a))"
| "fmul (Fin a) NInf = (if a = 0 then NaN else inf_of_sign (a < 0))"
| "fmul PInf (Fin b) = (if b = 0 then NaN else inf_of_sign (0 < b))"
| "fmul NInf (Fin b) = (if b = 0 then NaN else inf_of_sign (b < 0))"
| "fmul PInf PInf = PInf"
| "fmul PInf NInf = NInf"
| "fmul NInf PInf = NInf"
| "fmul NInf NInf = PInf"

text \<open>Python's \<open>/\<close> on floats raises \<open>ZeroDivisionError\<close> when the divisor is zero.\<close>

fun fdiv :: "pyfloat \<Rightarrow> pyfloat \<Rightarrow> error + pyfloat" where
  "fdiv x (Fin b) =
     (if b = 0 then Inl ZeroDivisionError
      else case x of
        Fin a \<Rightarrow> Inr (float_of_rat (a / b))
      | PInf \<Rightarrow> Inr (inf_of_sign (0 < b))
      | NInf \<Rightarrow> Inr (inf_of_sign (b < 0))
      | NaN \<Rightarrow> Inr NaN)"
| "fdiv x NaN = Inr NaN"
| "fdiv (Fin a) y = Inr (Fin 0)"
| "fdiv x y = Inr NaN"

text \<open>Comparisons: every comparison with \<open>NaN\<close> is false.\<close>

fun flt :: "pyfloat \<Rightarrow> pyfloat \<Rightarrow> bool" where
  "flt (Fin a) (Fin b) = (a < b)"
| "flt NaN y = False"
| "flt x NaN = False"
| "flt x NInf = False"
| "flt PInf y = False"
| "flt NInf y = True"
| "flt (Fin a) PInf = True"

fun fle :: "pyfloat \<Rightarrow> pyfloat \<Rightarrow> bool" where
  "fle (Fin a) (Fin b) = (a \<le> b)"
| "fle NaN y = False"
| "fle x NaN = False"
| "fle NInf y = True"
| "fle x PInf = True"
| "fle PInf y = False"
| "fle (Fin a) NInf = False"

definition fgt :: "pyfloat \<Rightarrow> pyfloat \<Rightarrow> bool" where
  "fgt x y = flt y x"

definition fge :: "pyfloat \<Rightarrow> pyfloat \<Rightarrow> bool" where
  "fge x y = fle y x"

text \<open>
  The builtins \<open>max(a, b)\<close> and \<open>min(a, b)\<close>: the first argument unless the second is
  strictly greater (smaller).
\<close>

definition py_max :: "pyfloat \<Rightarrow> pyfloat \<Rightarrow> pyfloat" where
  "py_max a b = (if fgt b a then b else a)"

definition py_min :: "pyfloat \<Rightarrow> pyfloat \<Rightarrow> pyfloat" where
  "py_min a b = (if flt b a then b else a)"

text \<open>
  The builtin \<open>round(x, ndigits)\<close> on a float, for the small non-negative \<open>ndigits\<close> of
  the program: infinities and \<open>NaN\<close> round to themselves; a finite value is rounded, ties
  to even, to \<open>ndigits\<close> decimals, and the float nearest to that decimal is returned;
  \<open>OverflowError\<close> is raised if it is not finite.
\<close>

definition py_round :: "pyfloat \<Rightarrow> nat \<Rightarrow> error + pyfloat" where
  "py_round x ndigits =
     (case x of
        Fin q \<Rightarrow>
          (case float_of_rat (of_int (round_half_even (q * 10 ^ ndigits)) / 10 ^ ndigits) of
             Fin r \<Rightarrow> Inr (Fin r)
           | _ \<Rightarrow> Inl OverflowError)
      | _ \<Rightarrow> Inr x)"

text \<open>
  What is used of the results of the float operations: a finite result is below the
  overflow threshold, and it is an integer unless its magnitude is at most \<open>2 ^ 52\<close>.
\<close>

definition double_like :: "pyfloat \<Rightarrow> bool" where
  "double_like x =
     (case x of
        Fin q \<Rightarrow> (of_int \<lfloor>q\<rfloor> = q \<or> \<bar>q\<bar> \<le> 2 ^ 52) \<and> \<bar>q\<bar> < 2 ^ 1024 - 2 ^ 970
      | _ \<Rightarrow> True)"

text \<open>
  The module \<open>random\<close>: its hidden state is modelled by the sequence of the values that
  \<open>random.random()\<close> is going to return; a call returns the first and leaves the rest.
  \<open>random.uniform(a, b)\<close> is \<open>a + (b - a) * random()\<close>.
\<close>

type_synonym rng = "nat \<Rightarrow> pyfloat"

definition random_random :: "rng \<Rightarrow> pyfloat \<times> rng" where
  "random_random g = (g 0, \<lambda>n. g (Suc n))"

definition random_uniform :: "pyfloat \<Rightarrow> pyfloat \<Rightarrow> rng \<Rightarrow> pyfloat \<times> rng" where
  "random_uniform a b g = (case random_random g of (r, g') \<Rightarrow> (fadd a (fmul (fsub b a) r), g'))"

text \<open>Decimal digits of a natural number, as an f-string prints it.\<close>

fun string_of_nat :: "nat \<Rightarrow> string" where
  "string_of_nat n =
     (if n < 10 then [''0123456789'' ! n]
      else string_of_nat (n div 10) @ [''0123456789'' ! (n mod 10)])"

declare string_of_nat.simps [simp del]

section \<open>The battery cell monitor\<close>

record specs =
  nominal_voltage :: pyfloat
  minimum_voltage :: pyfloat
  maximum_voltage :: pyfloat
  name :: string

record BatteryCellMonitor =
  cell_types :: "string \<rightharpoonup> specs"

text \<open>\<open>BatteryCellMonitor.__init__\<close>: the table of the four chemistries.\<close>

definition init :: BatteryCellMonitor where
  "init = \<lparr>cell_types =
     [''LFP'' \<mapsto> \<lparr>nominal_voltage = float_of_rat (32 / 10),
                  minimum_voltage = float_of_rat (28 / 10),
                  maximum_voltage = float_of_rat (36 / 10),
                  name = ''Lithium Iron Phosphate''\<rparr>,
      ''NMC'' \<mapsto> \<lparr>nominal_voltage = float_of_rat (36 / 10),
                  minimum_voltage = float_of_rat (32 / 10),
                  maximum_voltage = float_of_rat (40 / 10),
                  name = ''Nickel Manganese Cobalt''\<rparr>,
      ''LCO'' \<mapsto> \<lparr>nominal_voltage = float_of_rat (37 / 10),
                  minimum_voltage = float_of_rat (30 / 10),
                  maximum_voltage = float_of_rat (42 / 10),
                  name = ''Lithium Cobalt Oxide''\<rparr>,
      ''LTO'' \<mapsto> \<lparr>nominal_voltage = float_of_rat (24 / 10),
                  minimum_voltage = float_of_rat (15 / 10),
                  maximum_voltage = float_of_rat (28 / 10),
                  name = ''Lithium Titanate Oxide''\<rparr>]\<rparr>"

text \<open>\<open>generate_random_temperature\<close>: \<open>round(20 + (random.random() * 25), 1)\<close>.\<close>

definition generate_random_temperature ::
  "BatteryCellMonitor \<Rightarrow> rng \<Rightarrow> (error + pyfloat) \<times> rng" where
  "generate_random_temperature self g =
     (case random_random g of (r, g') \<Rightarrow> (py_round (fadd (Fin 20) (fmul r (Fin 25))) 1, g'))"

definition calculate_soc :: "BatteryCellMonitor \<Rightarrow> pyfloat \<Rightarrow> string \<Rightarrow> error + pyfloat" where
  "calculate_soc self voltage cell_type =
     (case cell_types self cell_type of
        None \<Rightarrow> Inl (KeyError cell_type)
      | Some specs \<Rightarrow>
          (let range_voltage = fsub (maximum_voltage specs) (minimum_voltage specs)
           in case fdiv (fsub voltage (minimum_voltage specs)) range_voltage of
                Inl e \<Rightarrow> Inl e
              | Inr ratio \<Rightarrow>
                  (let soc = fmul ratio (Fin 100)
                   in case py_round soc 1 of
                        Inl e \<Rightarrow> Inl e
                      | Inr rounded \<Rightarrow> Inr (py_max (Fin 0) (py_min (Fin 100) rounded)))))"

definition get_cell_status :: "BatteryCellMonitor \<Rightarrow> pyfloat \<Rightarrow> string \<Rightarrow> error + string" where
  "get_cell_status self voltage cell_type =
     (case cell_types self cell_type of
        None \<Rightarrow> Inl (KeyError cell_type)
      | Some specs \<Rightarrow>
          if fle voltage (fmul (minimum_voltage specs) (float_of_rat (105 / 100))) then Inr ''LOW''
          else if fge voltage (fmul (maximum_voltage specs) (float_of_rat (95 / 100))) then Inr ''HIGH''
          else Inr ''NORMAL'')"

text \<open>
  An element of \<open>cells_config\<close>: the chemistry, and the voltage and current as the
  number inputs of the page deliver them, floats.
\<close>

record reading =
  type :: string
  voltage :: pyfloat
  current :: pyfloat

record 'specs cell_data =
  Cell_ID :: string
  Type :: string
  Voltage_V :: pyfloat
  Current_A :: pyfloat
  Power_W :: pyfloat
  Temperature_C :: pyfloat
  SOC :: pyfloat
  Status :: string
  Specs :: 'specs

text \<open>
  The body of the loop of \<open>process_cells_data\<close> for the reading \<open>config\<close> at the
  1-based index \<open>i\<close>: the result record, or the exception that ends the call. The
  temperature is drawn before the chemistry is looked up.
\<close>

definition process_cell ::
  "BatteryCellMonitor \<Rightarrow> nat \<Rightarrow> reading \<Rightarrow> rng \<Rightarrow> (error + specs cell_data) \<times> rng" where
  "process_cell self i config g =
     (let cell_type = type config
      in case py_round (fmul (voltage config) (current config)) 2 of
           Inl e \<Rightarrow> (Inl e, g)
         | Inr power_w \<Rightarrow>
             (case generate_random_temperature self g of
                (Inl e, g') \<Rightarrow> (Inl e, g')
              | (Inr temperature, g') \<Rightarrow>
                  (case calculate_soc self (voltage config) cell_type of
                     Inl e \<Rightarrow> (Inl e, g')
                   | Inr soc \<Rightarrow>
                       (case get_cell_status self (voltage config) cell_type of
                          Inl e \<Rightarrow> (Inl e, g')
                        | Inr status \<Rightarrow>
                            (case cell_types self cell_type of
                               None \<Rightarrow> (Inl (KeyError cell_type), g')
                             | Some sp \<Rightarrow>
                                 (Inr \<lparr>Cell_ID = ''Cell_'' @ string_of_nat i,
                                       Type = cell_type,
                                       Voltage_V = voltage config,
                                       Current_A = current config,
                                       Power_W = power_w,
                                       Temperature_C = temperature,
                                       SOC = soc,
                                       Status = status,
                                       Specs = sp\<rparr>, g'))))))"

text \<open>
  The loop over \<open>enumerate(cells_config, 1)\<close>: \<open>i\<close> is the running index,
  \<open>cells_data\<close> the list built so far. An exception ends the loop; the random state
  keeps the draws made until then.
\<close>

fun process_cells_loop ::
  "BatteryCellMonitor \<Rightarrow> nat \<Rightarrow> reading list \<Rightarrow> specs cell_data list \<Rightarrow> rng
     \<Rightarrow> (error + specs cell_data list) \<times> rng" where
  "process_cells_loop self i [] cells_data g = (Inr cells_data, g)"
| "process_cells_loop self i (config # rest) cells_data g =
     (case process_cell self i config g of
        (Inl e, g') \<Rightarrow> (Inl e, g')
      | (Inr cell, g') \<Rightarrow> process_cells_loop self (Suc i) rest (cells_data @ [cell]) g')"

definition process_cells_data ::
  "BatteryCellMonitor \<Rightarrow> reading list \<Rightarrow> rng \<Rightarrow> (error + specs cell_data list) \<times> rng" where
  "process_cells_data self cells_config g = process_cells_loop self 1 cells_config [] g"

section \<open>The objects of a call of the batch evaluation\<close>

text \<open>
  For what a call changes, the objects are kept in a store. An address is a position in
  the store; a new object is put at its end. The objects are the profile dicts, the dict
  \<open>cell_types\<close> (chemistry to the address of its profile), the monitor (the address of
  its \<open>cell_types\<close>), the reading dicts, the result dicts (whose entry \<open>Specs\<close> is the
  address of a profile: the dict is not copied) and the lists (of addresses).
  An object of another kind than the code expects gives \<open>TypeError\<close>.
\<close>

type_synonym addr = nat

datatype pyobj =
  Specs_obj specs
| Dict_obj "(string \<times> addr) list"
| Monitor_obj addr
| Reading_obj reading
| Cell_obj "addr cell_data"
| List_obj "addr list"

type_synonym store = "pyobj list"

definition store_get :: "store \<Rightarrow> addr \<Rightarrow> pyobj option" where
  "store_get h a = (if a < length h then Some (h ! a) else None)"

text \<open>\<open>self.cell_types\<close>, as the table of the addresses of the profiles.\<close>

definition cell_types_refs :: "store \<Rightarrow> addr \<Rightarrow> error + (string \<times> addr) list" where
  "cell_types_refs h self =
     (case store_get h self of
        Some (Monitor_obj t) \<Rightarrow>
          (case store_get h t of Some (Dict_obj m) \<Rightarrow> Inr m | _ \<Rightarrow> Inl TypeError)
      | _ \<Rightarrow> Inl TypeError)"

text \<open>
  The monitor as the methods read it: every profile looked up through its address (an
  entry of the table that leads to no profile reads as a missing key; no store of the
  program has one).
\<close>

definition load_monitor :: "store \<Rightarrow> addr \<Rightarrow> error + BatteryCellMonitor" where
  "load_monitor h self =
     (case cell_types_refs h self of
        Inl e \<Rightarrow> Inl e
      | Inr m \<Rightarrow>
          Inr \<lparr>cell_types = (\<lambda>k. case map_of m k of
                                   None \<Rightarrow> None
                                 | Some p \<Rightarrow> (case store_get h p of
                                                Some (Specs_obj sp) \<Rightarrow> Some sp
                                              | _ \<Rightarrow> None))\<rparr>)"

text \<open>A record with another content under \<open>Specs\<close>, all other entries kept.\<close>

definition cell_with_specs :: "'a cell_data \<Rightarrow> 'b \<Rightarrow> 'b cell_data" where
  "cell_with_specs c x =
     \<lparr>Cell_ID = Cell_ID c, Type = Type c, Voltage_V = Voltage_V c, Current_A = Current_A c,
       Power_W = Power_W c, Temperature_C = Temperature_C c, SOC = SOC c, Status = Status c,
       Specs = x\<rparr>"

text \<open>
  The body of the loop on the store: the reading at address \<open>c\<close> is read, the values of
  the record are computed as \<open>process_cell\<close> does, the record is made a new object with
  the address of the profile under \<open>Specs\<close>, and its address is appended to the list at
  \<open>cells_data\<close>. The methods that compute the values (\<open>generate_random_temperature\<close>,
  \<open>calculate_soc\<close>, \<open>get_cell_status\<close>) assign to their local variables only, so on the
  store they are reads of the monitor; the dict literal and \<open>append\<close> are the writes.
\<close>

definition process_cell_store ::
  "addr \<Rightarrow> addr \<Rightarrow> addr \<Rightarrow> nat \<Rightarrow> store \<Rightarrow> rng \<Rightarrow> (error + unit) \<times> store \<times> rng" where
  "process_cell_store self cells_data c i h g =
     (case store_get h c of
        Some (Reading_obj config) \<Rightarrow>
          (case load_monitor h self of
             Inl e \<Rightarrow> (Inl e, h, g)
           | Inr m \<Rightarrow>
               (case process_cell m i config g of
                  (Inl e, g') \<Rightarrow> (Inl e, h, g')
                | (Inr cell, g') \<Rightarrow>
                    (case cell_types_refs h self of
                       Inl e \<Rightarrow> (Inl e, h, g')
                     | Inr refs \<Rightarrow>
                         (case map_of refs (type config) of
                            None \<Rightarrow> (Inl (KeyError (type config)), h, g')
                          | Some p \<Rightarrow>
                              (let new = length h;
                                   h1 = h @ [Cell_obj (cell_with_specs cell p)]
                               in case store_get h1 cells_data of
                                    Some (List_obj xs) \<Rightarrow>
                                      (Inr (), h1[cells_data := List_obj (xs @ [new])], g')
                                  | _ \<Rightarrow> (Inl TypeError, h1, g'))))))
      | _ \<Rightarrow> (Inl TypeError, h, g))"

text \<open>
  The loop \<open>for i, config in enumerate(cells_config, 1)\<close> on the store: the list at
  \<open>cells_config\<close> is read again at every step, as Python's list iterator does, so the
  loop ends when the position \<open>idx\<close> has reached the length the list has then. A loop that
  does not end has no result (\<open>None\<close>).
\<close>

partial_function (option) process_cells_loop_store ::
  "addr \<Rightarrow> addr \<Rightarrow> addr \<Rightarrow> nat \<Rightarrow> store \<Rightarrow> rng \<Rightarrow> ((error + addr) \<times> store \<times> rng) option" where
  "process_cells_loop_store self cells_config cells_data idx h g =
     (case store_get h cells_config of
        Some (List_obj cs) \<Rightarrow>
          if length cs \<le> idx then Some (Inr cells_data, h, g)
          else (case process_cell_store self cells_data (cs ! idx) (Suc idx) h g of
                  (Inl e, h', g') \<Rightarrow> Some (Inl e, h', g')
                | (Inr u, h', g') \<Rightarrow>
                    process_cells_loop_store self cells_config cells_data (Suc idx) h' g')
      | _ \<Rightarrow> Some (Inl TypeError, h, g))"

text \<open>
  \<open>process_cells_data\<close> on the store: \<open>cells_data = []\<close> makes a new list, the loop
  fills it, and its address is returned.
\<close>

definition process_cells_data_store ::
  "addr \<Rightarrow> addr \<Rightarrow> store \<Rightarrow> rng \<Rightarrow> ((error + addr) \<times> store \<times> rng) option" where
  "process_cells_data_store self cells_config h g =
     process_cells_loop_store self cells_config (length h) 0 (h @ [List_obj []]) g"

text \<open>
  A store as a call finds it: the monitor and its table lead to profiles, and the list of
  readings holds the addresses of readings.
\<close>

definition holds_specs :: "store \<Rightarrow> addr \<Rightarrow> bool" where
  "holds_specs h p = (case store_get h p of Some (Specs_obj sp) \<Rightarrow> True | _ \<Rightarrow> False)"

definition holds_reading :: "store \<Rightarrow> addr \<Rightarrow> bool" where
  "holds_reading h c = (case store_get h c of Some (Reading_obj r) \<Rightarrow> True | _ \<Rightarrow> False)"

definition wf_store :: "store \<Rightarrow> addr \<Rightarrow> addr \<Rightarrow> bool" where
  "wf_store h self cells_config =
     ((case cell_types_refs h self of
         Inl e \<Rightarrow> False
       | Inr m \<Rightarrow> list_all (holds_specs h) (map snd m))
      \<and> (case store_get h cells_config of
            Some (List_obj cs) \<Rightarrow> list_all (holds_reading h) cs
          | _ \<Rightarrow> False))"

text \<open>The readings a list of the store holds, and the records a result list holds.\<close>

definition load_reading :: "store \<Rightarrow> addr \<Rightarrow> reading option" where
  "load_reading h c = (case store_get h c of Some (Reading_obj r) \<Rightarrow> Some r | _ \<Rightarrow> None)"

definition load_readings :: "store \<Rightarrow> addr \<Rightarrow> reading list option" where
  "load_readings h a =
     (case store_get h a of
        Some (List_obj cs) \<Rightarrow> those (map (load_reading h) cs)
      | _ \<Rightarrow> None)"

definition load_cell :: "store \<Rightarrow> addr \<Rightarrow> specs cell_data option" where
  "load_cell h a =
     (case store_get h a of
        Some (Cell_obj c) \<Rightarrow>
          (case store_get h (Specs c) of
             Some (Specs_obj sp) \<Rightarrow> Some (cell_with_specs c sp)
           | _ \<Rightarrow> None)
      | _ \<Rightarrow> None)"

definition load_cells :: "store \<Rightarrow> addr \<Rightarrow> specs cell_data list option" where
  "load_cells h a =
     (case store_get h a of
        Some (List_obj xs) \<Rightarrow> those (map (load_cell h) xs)
      | _ \<Rightarrow> None)"

text \<open>
  The store \<open>h\<close> after a call that has made the records \<open>cells\<close>: the new list
  follows the objects of \<open>h\<close>, and the records follow the list.
\<close>

definition store_after :: "store \<Rightarrow> addr cell_data list \<Rightarrow> store" where
  "store_after h cells =
     h @ List_obj (map (\<lambda>j. Suc (length h + j)) [0..<length cells]) # map Cell_obj cells"

text \<open>
  A store as the script has it before a call: the four profiles, the table, the monitor
  (at address 5), two readings, and the list of the readings (at address 8).
\<close>

definition example_store :: store where
  "example_store =
     [Specs_obj \<lparr>nominal_voltage = float_of_rat (32 / 10), minimum_voltage = float_of_rat (28 / 10),
                 maximum_voltage = float_of_rat (36 / 10), name = ''Lithium Iron Phosphate''\<rparr>,
      Specs_obj \<lparr>nominal_voltage = float_of_rat (36 / 10), minimum_voltage = float_of_rat (32 / 10),
                 maximum_voltage = float_of_rat (40 / 10), name = ''Nickel Manganese Cobalt''\<rparr>,
      Specs_obj \<lparr>nominal_voltage = float_of_rat (37 / 10), minimum_voltage = float_of_rat (30 / 10),
                 maximum_voltage = float_of_rat (42 / 10), name = ''Lithium Cobalt Oxide''\<rparr>,
      Specs_obj \<lparr>nominal_voltage = float_of_rat (24 / 10), minimum_voltage = float_of_rat (15 / 10),
                 maximum_voltage = float_of_rat (28 / 10), name = ''Lithium Titanate Oxide''\<rparr>,
      Dict_obj [(''LFP'', 0), (''NMC'', 1), (''LCO'', 2), (''LTO'', 3)],
      Monitor_obj 4,
      Reading_obj \<lparr>type = ''LFP'', voltage = float_of_rat (32 / 10), current = float_of_rat 1\<rparr>,
      Reading_obj \<lparr>type = ''NMC'', voltage = float_of_rat (36 / 10), current = float_of_rat 1\<rparr>,
      List_obj [6, 7]]"

section \<open>The session and the script\<close>

text \<open>
  What the script keeps between runs (\<open>st.session_state\<close>), together with the state of
  the module \<open>random\<close>.
\<close>

record session =
  monitor :: BatteryCellMonitor
  monitoring_active :: bool
  cells_config :: "reading list"
  random_state :: rng

text \<open>
  One pass of the body of the monitoring loop on the reading at index \<open>i\<close>; the literal
  \<open>-0.05\<close> is the negation of the float \<open>0.05\<close>.
\<close>

definition perturb_cell :: "reading \<Rightarrow> rng \<Rightarrow> (error + reading) \<times> rng" where
  "perturb_cell config g =
     (case random_uniform (fsub (Fin 0) (float_of_rat (5 / 100))) (float_of_rat (5 / 100)) g of
        (voltage_variation, g1) \<Rightarrow>
     (case random_uniform (fsub (Fin 0) (float_of_rat (1 / 10))) (float_of_rat (1 / 10)) g1 of
        (current_variation, g2) \<Rightarrow>
          (let new_voltage = py_max (Fin 0) (fadd (voltage config) voltage_variation);
               new_current = py_max (Fin 0) (fadd (current config) current_variation)
           in case py_round new_voltage 2 of
                Inl e \<Rightarrow> (Inl e, g2)
              | Inr v \<Rightarrow>
                  (case py_round new_current 2 of
                     Inl e \<Rightarrow> (Inl e, g2)
                   | Inr c \<Rightarrow> (Inr (config\<lparr>voltage := v, current := c\<rparr>), g2)))))"

fun monitoring_loop :: "nat list \<Rightarrow> reading list \<Rightarrow> rng \<Rightarrow> (error + reading list) \<times> rng" where
  "monitoring_loop [] cfg g = (Inr cfg, g)"
| "monitoring_loop (i # is) cfg g =
     (if length cfg \<le> i then (Inl IndexError, g)
      else case perturb_cell (cfg ! i) g of
             (Inl e, g') \<Rightarrow> (Inl e, g')
           | (Inr config, g') \<Rightarrow> monitoring_loop is (cfg[i := config]) g')"

text \<open>The tick of the script when monitoring is active: \<open>for i in range(8)\<close>.\<close>

definition monitoring_tick :: "session \<Rightarrow> (error + unit) \<times> session" where
  "monitoring_tick s =
     (if monitoring_active s
      then case monitoring_loop [0..<8] (cells_config s) (random_state s) of
             (Inl e, g') \<Rightarrow> (Inl e, s\<lparr>random_state := g'\<rparr>)
           | (Inr cfg, g') \<Rightarrow> (Inr (), s\<lparr>cells_config := cfg, random_state := g'\<rparr>)
      else (Inr (), s))"

section \<open>Properties of the float operations\<close>

lemma bitlen_lower: "0 < n \<Longrightarrow> (2::rat) powi (bitlen n - 1) \<le> of_int n"
proof -
  assume n: "0 < n"
  then have b: "1 \<le> bitlen n" using bitlen_eq_zero_iff [of n] bitlen_nonneg [of n] by linarith
  from bitlen_bounds [OF n] have "(2::int) ^ nat (bitlen n - 1) \<le> n" by blast
  then have "(of_int ((2::int) ^ nat (bitlen n - 1)) :: rat) \<le> of_int n" by (simp only: of_int_le_iff)
  with b show ?thesis by (simp add: power_int_def)
qed

lemma bitlen_upper: "0 < n \<Longrightarrow> of_int n + 1 \<le> (2::rat) powi (bitlen n)"
proof -
  assume n: "0 < n"
  from bitlen_bounds [OF n] have "n + 1 \<le> (2::int) ^ nat (bitlen n)" by simp
  then have "(of_int (n + 1) :: rat) \<le> of_int ((2::int) ^ nat (bitlen n))" by (simp only: of_int_le_iff)
  with bitlen_nonneg [of n] show ?thesis by (simp add: power_int_def)
qed

lemma ilog2_bounds:
  assumes "0 < q"
  shows "2 powi (ilog2 q) \<le> q" and "q < 2 powi (ilog2 q + 1)"
proof -
  show "2 powi (ilog2 q) \<le> q"
  proof (cases "1 \<le> q")
    case True
    then have n: "0 < \<lfloor>q\<rfloor>" by linarith
    have "(2::rat) powi (bitlen \<lfloor>q\<rfloor> - 1) \<le> of_int \<lfloor>q\<rfloor>" by (rule bitlen_lower [OF n])
    also have "\<dots> \<le> q" by simp
    finally show ?thesis using True by (simp add: ilog2_def)
  next
    case False
    with assms have q1: "1 < 1 / q" by simp
    then have n: "0 < \<lceil>1 / q\<rceil> - 1" by linarith
    have "1 / q \<le> of_int (\<lceil>1 / q\<rceil> - 1) + 1" by simp
    also have "\<dots> \<le> 2 powi (bitlen (\<lceil>1 / q\<rceil> - 1))" by (rule bitlen_upper [OF n])
    finally have "1 / q \<le> 2 powi (bitlen (\<lceil>1 / q\<rceil> - 1))" .
    then have "1 \<le> 2 powi (bitlen (\<lceil>1 / q\<rceil> - 1)) * q"
      using assms by (simp add: pos_divide_le_eq)
    then have "2 powi (- bitlen (\<lceil>1 / q\<rceil> - 1)) \<le> q"
      by (simp add: power_int_minus field_simps)
    then show ?thesis using False by (simp add: ilog2_def)
  qed
  show "q < 2 powi (ilog2 q + 1)"
  proof (cases "1 \<le> q")
    case True
    then have n: "0 < \<lfloor>q\<rfloor>" by linarith
    have "q < of_int \<lfloor>q\<rfloor> + 1" by linarith
    also have "\<dots> \<le> 2 powi (bitlen \<lfloor>q\<rfloor>)" by (rule bitlen_upper [OF n])
    finally show ?thesis using True by (simp add: ilog2_def)
  next
    case False
    with assms have q1: "1 < 1 / q" by simp
    then have n: "0 < \<lceil>1 / q\<rceil> - 1" by linarith
    have "(2::rat) powi (bitlen (\<lceil>1 / q\<rceil> - 1) - 1) \<le> of_int (\<lceil>1 / q\<rceil> - 1)"
      by (rule bitlen_lower [OF n])
    also have "\<dots> < 1 / q" by linarith
    finally have "2 powi (bitlen (\<lceil>1 / q\<rceil> - 1) - 1) * q < 1"
      using assms by (simp add: pos_less_divide_eq)
    moreover have "0 < (2::rat) powi (bitlen (\<lceil>1 / q\<rceil> - 1) - 1)" by simp
    ultimately have "q < inverse (2 powi (bitlen (\<lceil>1 / q\<rceil> - 1) - 1))"
      by (simp add: field_simps)
    also have "\<dots> = 2 powi (- (bitlen (\<lceil>1 / q\<rceil> - 1) - 1))"
      by (simp only: power_int_minus)
    also have "- (bitlen (\<lceil>1 / q\<rceil> - 1) - 1) = ilog2 q + 1"
      using False by (simp add: ilog2_def)
    finally show ?thesis .
  qed
qed

lemma ilog2_unique:
  assumes "2 powi e \<le> q" and "q < 2 powi (e + 1)"
  shows "ilog2 q = e"
proof -
  have pos: "0 < q" using assms(1) zero_less_power_int [of "2::rat" e] by linarith
  note b = ilog2_bounds [OF pos]
  have "\<not> e < ilog2 q"
  proof
    assume "e < ilog2 q"
    then have "e + 1 \<le> ilog2 q" by simp
    then have "(2::rat) powi (e + 1) \<le> 2 powi (ilog2 q)" by (intro power_int_increasing) simp_all
    with b(1) assms(2) show False by linarith
  qed
  moreover have "\<not> ilog2 q < e"
  proof
    assume "ilog2 q < e"
    then have "ilog2 q + 1 \<le> e" by simp
    then have "(2::rat) powi (ilog2 q + 1) \<le> 2 powi e" by (intro power_int_increasing) simp_all
    with b(2) assms(1) show False by linarith
  qed
  ultimately show ?thesis by linarith
qed

lemma round_half_even_near: "\<bar>of_int (round_half_even q) - q\<bar> \<le> 1 / 2"
proof -
  have "of_int \<lfloor>q\<rfloor> \<le> q" and "q < of_int \<lfloor>q\<rfloor> + 1" by linarith+
  then show ?thesis unfolding round_half_even_def Let_def by (simp split: if_splits)
qed

lemma round_half_even_unique:
  assumes "\<bar>q - of_int m\<bar> < 1 / 2"
  shows "round_half_even q = m"
proof -
  have "\<bar>(of_int (round_half_even q) :: rat) - of_int m\<bar> < 1"
    using round_half_even_near [of q] assms by linarith
  then have "\<bar>(of_int (round_half_even q - m) :: rat)\<bar> < of_int 1" by simp
  then have "\<bar>round_half_even q - m\<bar> < 1" by (simp only: of_int_abs [symmetric] of_int_less_iff)
  then show ?thesis by linarith
qed

lemma round_half_even_of_int [simp]: "round_half_even (of_int m) = m"
  by (rule round_half_even_unique) simp

lemma round_half_even_ge: "of_int k \<le> q \<Longrightarrow> k \<le> round_half_even q"
proof -
  assume "of_int k \<le> q"
  then have "k \<le> \<lfloor>q\<rfloor>" by (simp add: le_floor_iff)
  then show ?thesis unfolding round_half_even_def Let_def by (simp split: if_splits)
qed

lemma round_half_even_le: "q \<le> of_int k \<Longrightarrow> round_half_even q \<le> k"
proof -
  assume a: "q \<le> of_int k"
  have "round_half_even q \<le> \<lceil>q\<rceil>"
    unfolding round_half_even_def Let_def by (auto simp: ceiling_altdef) 
  moreover have "\<lceil>q\<rceil> \<le> k" using a by (simp add: ceiling_le_iff)
  ultimately show ?thesis by linarith
qed


lemma float_of_rat_normal:
  assumes lo: "2 powi E \<le> \<bar>q\<bar>" and hi: "\<bar>q\<bar> < 2 powi (E + 1)"
    and E: "- 1022 \<le> E" "E \<le> 1022"
    and m: "\<bar>q / 2 powi (E - 52) - of_int m\<bar> < 1 / 2"
  shows "float_of_rat q = Fin (of_int m * 2 powi (E - 52))"
proof -
  have il: "ilog2 \<bar>q\<bar> = E" by (rule ilog2_unique [OF lo hi])
  have "0 < \<bar>q\<bar>" using lo zero_less_power_int [of "2::rat" E] by linarith
  then have q0: "q \<noteq> 0" by simp
  have "(2::rat) powi (E + 1) \<le> 2 powi 1023" using E by (intro power_int_increasing) simp_all
  also have "\<dots> \<le> 2 ^ 1024 - 2 ^ 970" by simp
  finally have T: "\<not> 2 ^ 1024 - 2 ^ 970 \<le> \<bar>q\<bar>" using hi by linarith
  have mx: "max (E - 52) (- 1074) = E - 52" using E by simp
  show ?thesis
    unfolding float_of_rat_def using q0 T
    by (simp only: il mx Let_def if_False round_half_even_unique [OF m])
qed

lemma float_of_rat_double_like: "double_like (float_of_rat q)"
proof (cases "q = 0 \<or> 2 ^ 1024 - 2 ^ 970 \<le> \<bar>q\<bar>")
  case True
  then show ?thesis by (auto simp: float_of_rat_def double_like_def)
next
  case False
  define T :: rat where "T = 2 ^ 1024 - 2 ^ 970"
  define E where "E = ilog2 \<bar>q\<bar>"
  define e where "e = max (E - 52) (- 1074)"
  define u :: rat where "u = 2 powi e"
  define m where "m = round_half_even (q / u)"
  from False have q0: "q \<noteq> 0" and qT: "\<bar>q\<bar> < T" by (simp_all add: T_def)
  have val: "float_of_rat q = Fin (of_int m * u)"
    using False by (simp add: float_of_rat_def Let_def m_def u_def e_def E_def)
  have pos: "0 < \<bar>q\<bar>" using q0 by simp
  have lo: "2 powi E \<le> \<bar>q\<bar>" and hi: "\<bar>q\<bar> < 2 powi (E + 1)"
    using ilog2_bounds [OF pos] by (simp_all add: E_def)
  have upos: "0 < u" by (simp add: u_def)
  have ule: "(2::rat) powi (E - 52) \<le> u"
    unfolding u_def by (intro power_int_increasing) (simp_all add: e_def)
  have split: "(2::rat) powi (E + 1) = 2 ^ 53 * 2 powi (E - 52)"
  proof -
    have "E + 1 = 53 + (E - 52)" by simp
    then have "(2::rat) powi (E + 1) = 2 powi (53 + (E - 52))" by (rule arg_cong)
    also have "\<dots> = 2 powi 53 * 2 powi (E - 52)" by (rule power_int_add) simp
    finally show ?thesis by simp
  qed
  have "\<bar>q\<bar> < 2 ^ 53 * 2 powi (E - 52)" using hi unfolding split .
  also have "\<dots> \<le> 2 ^ 53 * u" using ule by (rule mult_left_mono) simp
  finally have "\<bar>q\<bar> < 2 ^ 53 * u" .
  then have qu: "\<bar>q / u\<bar> < 2 ^ 53" using upos by (simp add: pos_divide_less_eq abs_mult)
  have mb: "\<bar>m\<bar> \<le> 2 ^ 53"
  proof -
    from qu have "q / u < 2 ^ 53" and "- (2 ^ 53) < q / u" by linarith+
    then have up: "q / u \<le> of_int (2 ^ 53)" and dn: "of_int (- (2 ^ 53)) \<le> q / u" by simp_all
    have "m \<le> 2 ^ 53" unfolding m_def by (rule round_half_even_le [OF up])
    moreover have "- (2 ^ 53) \<le> m" unfolding m_def by (rule round_half_even_ge [OF dn])
    ultimately show ?thesis by simp
  qed
  have E1023: "E \<le> 1023"
  proof (rule ccontr)
    assume "\<not> E \<le> 1023"
    then have "(2::rat) powi 1024 \<le> 2 powi E" by (intro power_int_increasing) simp_all
    moreover have "T < 2 powi 1024" by (simp add: T_def)
    ultimately show False using lo qT by linarith
  qed
  have abs_val: "\<bar>of_int m * u\<bar> = of_int \<bar>m\<bar> * u" using upos by (simp add: abs_mult)
  have mbr: "(of_int \<bar>m\<bar> :: rat) \<le> 2 ^ 53"
    using mb by (metis of_int_le_iff of_int_numeral of_int_power)
  have "e \<le> 971" using E1023 by (simp add: e_def)
  then consider "e < 0" | "0 \<le> e" "e \<le> 970" | "e = 971" by linarith
  then show ?thesis
  proof cases
    case 1
    then have "u \<le> 2 powi (- 1)" unfolding u_def by (intro power_int_increasing) simp_all
    then have "u \<le> 1 / 2" by (simp add: power_int_minus)
    then have "of_int \<bar>m\<bar> * u \<le> 2 ^ 53 * (1 / 2)"
      using mbr upos by (intro mult_mono) simp_all
    then have "\<bar>of_int m * u\<bar> \<le> 2 ^ 52" unfolding abs_val by simp
    moreover have "(2::rat) ^ 52 < T" by (simp add: T_def)
    ultimately show ?thesis unfolding val by (simp add: double_like_def T_def)
  next
    case 2
    then have ui: "u = of_int (2 ^ nat e)" by (simp add: u_def power_int_def)
    have int: "of_int \<lfloor>of_int m * u\<rfloor> = of_int m * u"
      unfolding ui by (simp only: of_int_mult [symmetric] floor_of_int)
    have "u \<le> 2 powi 970" unfolding u_def using 2 by (intro power_int_increasing) simp_all
    then have "of_int \<bar>m\<bar> * u \<le> 2 ^ 53 * 2 powi 970"
      using mbr upos by (intro mult_mono) simp_all
    moreover have "(2::rat) ^ 53 * 2 powi 970 < T" by (simp add: T_def)
    ultimately have "\<bar>of_int m * u\<bar> < T" unfolding abs_val by linarith
    with int show ?thesis unfolding val by (simp add: double_like_def T_def)
  next
    case 3
    then have u971: "u = 2 ^ 971" by (simp add: u_def)
    then have ui: "u = of_int (2 ^ 971)" by simp
    have int: "of_int \<lfloor>of_int m * u\<rfloor> = of_int m * u"
      unfolding ui by (simp only: of_int_mult [symmetric] floor_of_int)
    have "\<bar>q\<bar> < (2 ^ 53 - 1 / 2) * u" using qT by (simp add: T_def u971)
    then have "\<bar>q / u\<bar> < 2 ^ 53 - 1 / 2" using upos by (simp add: pos_divide_less_eq abs_mult)
    moreover have "\<bar>of_int m - q / u\<bar> \<le> 1 / 2" unfolding m_def by (rule round_half_even_near)
    ultimately have "\<bar>(of_int m :: rat)\<bar> < 2 ^ 53" by linarith
    then have "\<bar>(of_int m :: rat)\<bar> < of_int (2 ^ 53)" by simp
    then have "\<bar>m\<bar> < 2 ^ 53" by (simp only: of_int_abs [symmetric] of_int_less_iff)
    then have "\<bar>m\<bar> \<le> 2 ^ 53 - 1" by simp
    then have "(of_int \<bar>m\<bar> :: rat) \<le> of_int (2 ^ 53 - 1)" by (simp only: of_int_le_iff)
    then have "of_int \<bar>m\<bar> * u \<le> (2 ^ 53 - 1) * 2 ^ 971" unfolding u971 by simp
    moreover have "((2::rat) ^ 53 - 1) * 2 ^ 971 < T" by (simp add: T_def)
    ultimately have "\<bar>of_int m * u\<bar> < T" unfolding abs_val by linarith
    with int show ?thesis unfolding val by (simp add: double_like_def T_def)
  qed
qed

lemma float_of_rat_finite:
  assumes "\<bar>q\<bar> < 2 ^ 1024 - 2 ^ 970"
  shows "\<exists>r. float_of_rat q = Fin r"
  using assms by (simp add: float_of_rat_def Let_def)

lemma float_of_rat_not_NaN [simp]: "float_of_rat q \<noteq> NaN"
  by (simp add: float_of_rat_def Let_def)

lemma float_of_rat_nonneg:
  assumes "0 \<le> q"
  shows "fle (Fin 0) (float_of_rat q)"
proof -
  have "0 \<le> round_half_even (q / u)" if "0 < u" for u :: rat
    using assms that by (intro round_half_even_ge) simp
  then show ?thesis using assms by (simp add: float_of_rat_def Let_def)
qed

lemma double_like_special [simp]: "double_like PInf" "double_like NInf" "double_like NaN"
  "double_like (Fin 0)" "double_like (inf_of_sign b)"
  by (simp_all add: double_like_def inf_of_sign_def)

lemma double_like_fadd [simp]: "double_like (fadd x y)"
  by (cases "(x, y)" rule: fadd.cases) (simp_all add: float_of_rat_double_like)

lemma double_like_fsub [simp]: "double_like (fsub x y)"
  by (cases "(x, y)" rule: fsub.cases) (simp_all add: float_of_rat_double_like)

lemma double_like_fmul [simp]: "double_like (fmul x y)"
  by (cases "(x, y)" rule: fmul.cases) (simp_all add: float_of_rat_double_like)

lemma double_like_fdiv: "fdiv x y = Inr z \<Longrightarrow> double_like z"
  by (cases "(x, y)" rule: fdiv.cases)
     (auto simp: float_of_rat_double_like split: if_splits pyfloat.splits)

lemma py_round_total:
  assumes "double_like x"
  shows "\<exists>r. py_round x n = Inr r"
proof (cases x)
  case (Fin q)
  define d :: rat where "d = of_int (round_half_even (q * 10 ^ n)) / 10 ^ n"
  from assms Fin have T: "\<bar>q\<bar> < 2 ^ 1024 - 2 ^ 970"
    and alt: "of_int \<lfloor>q\<rfloor> = q \<or> \<bar>q\<bar> \<le> 2 ^ 52" by (simp_all add: double_like_def)
  have "\<bar>d\<bar> < 2 ^ 1024 - 2 ^ 970"
    using alt
  proof
    assume i: "of_int \<lfloor>q\<rfloor> = q"
    have "of_int (\<lfloor>q\<rfloor> * 10 ^ n) = of_int \<lfloor>q\<rfloor> * (10::rat) ^ n" by simp
    also have "\<dots> = q * 10 ^ n" by (simp only: i)
    finally have "q * 10 ^ n = of_int (\<lfloor>q\<rfloor> * 10 ^ n)" by (rule sym)
    then have "round_half_even (q * 10 ^ n) = \<lfloor>q\<rfloor> * 10 ^ n"
      by (simp only: round_half_even_of_int)
    then have "d = q" using i by (simp add: d_def)
    then show ?thesis using T by simp
  next
    assume s: "\<bar>q\<bar> \<le> 2 ^ 52"
    have p: "(1::rat) \<le> 10 ^ n" by simp
    define X :: rat where "X = of_int (round_half_even (q * 10 ^ n)) - q * 10 ^ n"
    have a: "\<bar>X\<bar> \<le> 1 / 2" unfolding X_def by (rule round_half_even_near)
    have "\<bar>X\<bar> / 10 ^ n \<le> (1 / 2) / 10 ^ n" by (rule divide_right_mono [OF a]) simp
    moreover have "\<bar>X / 10 ^ n\<bar> = \<bar>X\<bar> / 10 ^ n" by (simp add: abs_divide)
    moreover have "X / 10 ^ n = d - q"
      by (simp add: X_def d_def diff_divide_distrib)
    moreover have "(1 / 2) / (10::rat) ^ n \<le> 1 / 2"
      using p by (simp add: field_simps)
    ultimately have "\<bar>d - q\<bar> \<le> 1 / 2" by linarith
    then have "\<bar>d\<bar> \<le> 2 ^ 52 + 1 / 2" using s by linarith
    moreover have "(2::rat) ^ 52 + 1 / 2 < 2 ^ 1024 - 2 ^ 970" by simp
    ultimately show ?thesis by linarith
  qed
  then obtain r where "float_of_rat d = Fin r" using float_of_rat_finite by blast
  then show ?thesis using Fin by (simp add: py_round_def d_def)
qed (simp_all add: py_round_def)

lemma py_round_nonneg:
  assumes "fle (Fin 0) x" and "py_round x n = Inr r"
  shows "fle (Fin 0) r"
proof (cases x)
  case (Fin q)
  define d :: rat where "d = of_int (round_half_even (q * 10 ^ n)) / 10 ^ n"
  from assms(1) Fin have "0 \<le> q" by simp
  then have "of_int 0 \<le> q * 10 ^ n" by simp
  then have "0 \<le> round_half_even (q * 10 ^ n)" by (rule round_half_even_ge)
  then have "0 \<le> d" by (simp add: d_def)
  then have h: "fle (Fin 0) (float_of_rat d)" by (rule float_of_rat_nonneg)
  from assms(2) Fin have "float_of_rat d = r"
    by (cases "float_of_rat d") (simp_all add: py_round_def d_def)
  with h show ?thesis by simp
next
  case PInf
  with assms(2) show ?thesis by (simp add: py_round_def)
next
  case NInf
  with assms(1) show ?thesis by simp
next
  case NaN
  with assms(1) show ?thesis by simp
qed

lemma clamp_range:
  "\<exists>q. py_max (Fin 0) (py_min (Fin 100) r) = Fin q \<and> 0 \<le> q \<and> q \<le> 100"
  by (cases r) (auto simp: py_max_def py_min_def fgt_def)

lemma py_max_nonneg: "fle (Fin 0) (py_max (Fin 0) x)"
  by (cases x) (auto simp: py_max_def fgt_def)

section \<open>The float constants of the program, evaluated\<close>

lemma round_half_even_tie:
  assumes "q = of_int f + 1 / 2"
  shows "round_half_even q = (if even f then f else f + 1)"
proof -
  have "\<lfloor>q\<rfloor> = f" unfolding assms by (rule floor_unique) simp_all
  then show ?thesis by (simp add: round_half_even_def Let_def assms)
qed

lemma float_of_rat_tie:
  assumes lo: "2 powi E \<le> \<bar>q\<bar>" and hi: "\<bar>q\<bar> < 2 powi (E + 1)"
    and E: "- 1022 \<le> E" "E \<le> 1022"
    and m: "round_half_even (q / 2 powi (E - 52)) = m"
  shows "float_of_rat q = Fin (of_int m * 2 powi (E - 52))"
proof -
  have il: "ilog2 \<bar>q\<bar> = E" by (rule ilog2_unique [OF lo hi])
  have "0 < \<bar>q\<bar>" using lo zero_less_power_int [of "2::rat" E] by linarith
  then have q0: "q \<noteq> 0" by simp
  have "(2::rat) powi (E + 1) \<le> 2 powi 1023" using E by (intro power_int_increasing) simp_all
  also have "\<dots> \<le> 2 ^ 1024 - 2 ^ 970" by simp
  finally have T: "\<not> 2 ^ 1024 - 2 ^ 970 \<le> \<bar>q\<bar>" using hi by linarith
  have mx: "max (E - 52) (- 1074) = E - 52" using E by simp
  show ?thesis
    unfolding float_of_rat_def using q0 T
    by (simp only: il mx Let_def if_False m)
qed

lemma float_lit_3_2: "float_of_rat (16 / 5) = Fin (3602879701896397 / 1125899906842624)"
  using float_of_rat_normal [of 1 "16 / 5" 7205759403792794] by simp

lemma float_lit_2_8: "float_of_rat (14 / 5) = Fin (3152519739159347 / 1125899906842624)"
  using float_of_rat_normal [of 1 "14 / 5" 6305039478318694] by simp

lemma float_lit_3_6: "float_of_rat (18 / 5) = Fin (8106479329266893 / 2251799813685248)"
  using float_of_rat_normal [of 1 "18 / 5" 8106479329266893] by simp

lemma float_lit_4_0: "float_of_rat (4) = Fin (4)"
  using float_of_rat_normal [of 2 4 4503599627370496] by simp

lemma float_lit_3_7: "float_of_rat (37 / 10) = Fin (4165829655317709 / 1125899906842624)"
  using float_of_rat_normal [of 1 "37 / 10" 8331659310635418] by simp

lemma float_lit_3_0: "float_of_rat (3) = Fin (3)"
  using float_of_rat_normal [of 1 3 6755399441055744] by simp

lemma float_lit_4_2: "float_of_rat (21 / 5) = Fin (4728779608739021 / 1125899906842624)"
  using float_of_rat_normal [of 2 "21 / 5" 4728779608739021] by simp

lemma float_lit_2_4: "float_of_rat (12 / 5) = Fin (5404319552844595 / 2251799813685248)"
  using float_of_rat_normal [of 1 "12 / 5" 5404319552844595] by simp

lemma float_lit_1_5: "float_of_rat (3 / 2) = Fin (3 / 2)"
  using float_of_rat_normal [of 0 "3 / 2" 6755399441055744] by simp

lemma float_lit_1_05: "float_of_rat (21 / 20) = Fin (4728779608739021 / 4503599627370496)"
  using float_of_rat_normal [of 0 "21 / 20" 4728779608739021] by simp

lemma float_lit_0_95: "float_of_rat (19 / 20) = Fin (4278419646001971 / 4503599627370496)"
  using float_of_rat_normal [of "- 1" "19 / 20" 8556839292003942] by simp

lemma float_lit_0_05: "float_of_rat (1 / 20) = Fin (3602879701896397 / 72057594037927936)"
  using float_of_rat_normal [of "- 5" "1 / 20" 7205759403792794] by simp

lemma float_lit_0_1: "float_of_rat (1 / 10) = Fin (3602879701896397 / 36028797018963968)"
  using float_of_rat_normal [of "- 4" "1 / 10" 7205759403792794] by simp

lemma float_int_1: "float_of_rat (1) = Fin (1)"
  using float_of_rat_normal [of 0 1 4503599627370496] by simp


lemma float_int_100: "float_of_rat (100) = Fin (100)"
  using float_of_rat_normal [of 6 100 7036874417766400] by simp

lemma range_LFP: "float_of_rat (1801439850948199 / 2251799813685248) = Fin (1801439850948199 / 2251799813685248)"
  using float_of_rat_normal [of "- 1" "1801439850948199 / 2251799813685248" 7205759403792796] by simp

lemma low_LFP: "float_of_rat (14907571058683977446349255779287 / 5070602400912917605986812821504) = Fin (6620291452234629 / 2251799813685248)"
  using float_of_rat_normal [of 1 "14907571058683977446349255779287 / 5070602400912917605986812821504" 6620291452234629] by simp

lemma high_LFP: "float_of_rat (34682920422244355659337863046103 / 10141204801825835211973625643008) = Fin (1925288840700887 / 562949953421312)"
  using float_of_rat_normal [of 1 "34682920422244355659337863046103 / 10141204801825835211973625643008" 7701155362803548] by simp

lemma range_NMC: "float_of_rat (900719925474099 / 1125899906842624) = Fin (900719925474099 / 1125899906842624)"
  using float_of_rat_normal [of "- 1" "900719925474099 / 1125899906842624" 7205759403792792] by simp

lemma low_NMC: "float_of_rat (17037224067067404822447553207337 / 5070602400912917605986812821504) = Fin (3783023686991217 / 1125899906842624)"
  using float_of_rat_normal [of 1 "17037224067067404822447553207337 / 5070602400912917605986812821504" 7566047373982434] by simp

lemma high_NMC: "float_of_rat (4278419646001971 / 1125899906842624) = Fin (4278419646001971 / 1125899906842624)"
  using float_of_rat_normal [of 1 "4278419646001971 / 1125899906842624" 8556839292003942] by simp

lemma range_LCO: "float_of_rat (1351079888211149 / 1125899906842624) = Fin (1351079888211149 / 1125899906842624)"
  using float_of_rat_normal [of 0 "1351079888211149 / 1125899906842624" 5404319552844596] by simp

lemma low_LCO: "float_of_rat (14186338826217063 / 4503599627370496) = Fin (1773292353277133 / 562949953421312)"
  using float_of_rat_tie [of 1 "14186338826217063 / 4503599627370496" 7093169413108532] round_half_even_tie [of "14186338826217063 / 2" 7093169413108531] by simp

lemma high_LCO: "float_of_rat (20231703579642541157815390610391 / 5070602400912917605986812821504) = Fin (8984681256604139 / 2251799813685248)"
  using float_of_rat_normal [of 1 "20231703579642541157815390610391 / 5070602400912917605986812821504" 8984681256604139] by simp

lemma range_LTO: "float_of_rat (1463669878895411 / 1125899906842624) = Fin (1463669878895411 / 1125899906842624)"
  using float_of_rat_normal [of 0 "1463669878895411 / 1125899906842624" 5854679515581644] by simp

lemma low_LTO: "float_of_rat (14186338826217063 / 9007199254740992) = Fin (1773292353277133 / 1125899906842624)"
  using float_of_rat_tie [of 0 "14186338826217063 / 9007199254740992" 7093169413108532] round_half_even_tie [of "14186338826217063 / 2" 7093169413108531] by simp

lemma high_LTO: "float_of_rat (13487802386428359345737045072937 / 5070602400912917605986812821504) = Fin (5989787504402759 / 2251799813685248)"
  using float_of_rat_normal [of 1 "13487802386428359345737045072937 / 5070602400912917605986812821504" 5989787504402759] by simp

section \<open>The table of chemistries\<close>

lemma round_half_even_zero [simp]: "round_half_even 0 = 0"
  using round_half_even_of_int [of 0] by simp

lemma float_of_rat_zero [simp]: "float_of_rat 0 = Fin 0"
  by (simp add: float_of_rat_def)

lemma string_of_nat_examples: "string_of_nat 1 = ''1''" "string_of_nat 2 = ''2''" "string_of_nat 12 = ''12''"
  by (simp_all add: string_of_nat.simps)

lemma init_dom: "dom (cell_types init) = {''LFP'', ''NMC'', ''LCO'', ''LTO''}"
  by (auto simp: init_def)

lemma init_cases:
  assumes "cell_types init t = Some sp"
  obtains
    "t = ''LFP''" "sp = \<lparr>nominal_voltage = float_of_rat (32 / 10), minimum_voltage = float_of_rat (28 / 10),
        maximum_voltage = float_of_rat (36 / 10), name = ''Lithium Iron Phosphate''\<rparr>"
  | "t = ''NMC''" "sp = \<lparr>nominal_voltage = float_of_rat (36 / 10), minimum_voltage = float_of_rat (32 / 10),
        maximum_voltage = float_of_rat (40 / 10), name = ''Nickel Manganese Cobalt''\<rparr>"
  | "t = ''LCO''" "sp = \<lparr>nominal_voltage = float_of_rat (37 / 10), minimum_voltage = float_of_rat (30 / 10),
        maximum_voltage = float_of_rat (42 / 10), name = ''Lithium Cobalt Oxide''\<rparr>"
  | "t = ''LTO''" "sp = \<lparr>nominal_voltage = float_of_rat (24 / 10), minimum_voltage = float_of_rat (15 / 10),
        maximum_voltage = float_of_rat (28 / 10), name = ''Lithium Titanate Oxide''\<rparr>"
  using assms by (auto simp: init_def split: if_splits)

lemmas float_lits = float_lit_3_2 float_lit_2_8 float_lit_3_6 float_lit_4_0 float_lit_3_7
  float_lit_3_0 float_lit_4_2 float_lit_2_4 float_lit_1_5 float_lit_1_05 float_lit_0_95

lemma profile_order:
  assumes "cell_types init t = Some sp"
  shows "flt (minimum_voltage sp) (nominal_voltage sp) \<and> flt (nominal_voltage sp) (maximum_voltage sp)"
  using assms by (rule init_cases) (simp_all add: float_lits)

lemma profile_range:
  assumes "cell_types init t = Some sp"
  shows "flt (Fin 0) (fsub (maximum_voltage sp) (minimum_voltage sp)) \<and>
         flt (fsub (maximum_voltage sp) (minimum_voltage sp)) PInf"
  using assms by (rule init_cases)
    (simp_all add: float_lits range_LFP range_NMC range_LCO range_LTO)

lemma profile_finite:
  assumes "cell_types init t = Some sp"
  shows "flt (minimum_voltage sp) PInf \<and> flt NInf (minimum_voltage sp) \<and>
         flt (maximum_voltage sp) PInf \<and> flt NInf (maximum_voltage sp)"
  using assms by (rule init_cases) (simp_all add: float_lits)

lemma profile_thresholds:
  assumes "cell_types init t = Some sp"
  shows "flt (fmul (minimum_voltage sp) (float_of_rat (105 / 100)))
             (fmul (maximum_voltage sp) (float_of_rat (95 / 100)))"
  using assms by (rule init_cases)
    (simp_all add: float_lits low_LFP high_LFP low_NMC high_NMC low_LCO high_LCO low_LTO high_LTO)

lemma flt_Fin_PInf_iff: "flt x PInf \<and> flt NInf x \<longleftrightarrow> (\<exists>r. x = Fin r)"
  by (cases x) simp_all

lemma flt_not_fle: "flt a b \<Longrightarrow> \<not> fle b a"
  by (cases "(a, b)" rule: flt.cases) simp_all

lemma flt_not_NaN: "flt a b \<Longrightarrow> a \<noteq> NaN \<and> b \<noteq> NaN"
  by (cases "(a, b)" rule: flt.cases) simp_all

lemma fle_refl: "x \<noteq> NaN \<Longrightarrow> fle x x"
  by (cases x) simp_all

section \<open>Status classification\<close>

lemma fle_trans: "fle a b \<Longrightarrow> fle b c \<Longrightarrow> fle a c"
  by (cases a; cases b; cases c) simp_all

lemma get_cell_status_known:
  assumes "cell_types self t = Some sp"
  shows "get_cell_status self v t =
     (if fle v (fmul (minimum_voltage sp) (float_of_rat (105 / 100))) then Inr ''LOW''
      else if fge v (fmul (maximum_voltage sp) (float_of_rat (95 / 100))) then Inr ''HIGH''
      else Inr ''NORMAL'')"
  using assms by (simp add: get_cell_status_def)

text \<open>
  C2: for each of the four chemistries and every voltage, the status is LOW exactly when
  the voltage is at most \<open>minimum_voltage * 1.05\<close>; it is HIGH exactly when the voltage is at
  least \<open>maximum_voltage * 0.95\<close> and not LOW (and for these four profiles the two
  thresholds do not overlap, so HIGH exactly when the voltage is at least the high
  threshold); it is NORMAL otherwise; the result is one of the three; and at the two
  threshold values themselves the status is LOW and HIGH respectively.
\<close>

theorem get_cell_status_classification:
  assumes "cell_types init t = Some sp"
  shows "(get_cell_status init v t = Inr ''LOW''
            \<longleftrightarrow> fle v (fmul (minimum_voltage sp) (float_of_rat (105 / 100))))
       \<and> (get_cell_status init v t = Inr ''HIGH''
            \<longleftrightarrow> fge v (fmul (maximum_voltage sp) (float_of_rat (95 / 100)))
                \<and> \<not> fle v (fmul (minimum_voltage sp) (float_of_rat (105 / 100))))
       \<and> (get_cell_status init v t = Inr ''HIGH''
            \<longleftrightarrow> fge v (fmul (maximum_voltage sp) (float_of_rat (95 / 100))))
       \<and> (get_cell_status init v t = Inr ''NORMAL''
            \<longleftrightarrow> \<not> fle v (fmul (minimum_voltage sp) (float_of_rat (105 / 100)))
                \<and> \<not> fge v (fmul (maximum_voltage sp) (float_of_rat (95 / 100))))
       \<and> get_cell_status init v t \<in> {Inr ''LOW'', Inr ''NORMAL'', Inr ''HIGH''}
       \<and> get_cell_status init (fmul (minimum_voltage sp) (float_of_rat (105 / 100))) t = Inr ''LOW''
       \<and> get_cell_status init (fmul (maximum_voltage sp) (float_of_rat (95 / 100))) t = Inr ''HIGH''"
proof -
  define low where "low = fmul (minimum_voltage sp) (float_of_rat (105 / 100))"
  define high where "high = fmul (maximum_voltage sp) (float_of_rat (95 / 100))"
  have lh: "flt low high" unfolding low_def high_def by (rule profile_thresholds [OF assms])
  have nlh: "\<not> fle high low" by (rule flt_not_fle [OF lh])
  have ll: "fle low low" and hh: "fle high high"
    using flt_not_NaN [OF lh] by (simp_all add: fle_refl)
  have excl: "\<not> fle w low" if "fle high w" for w
    using that nlh fle_trans by blast
  have st: "get_cell_status init w t =
     (if fle w low then Inr ''LOW'' else if fge w high then Inr ''HIGH'' else Inr ''NORMAL'')" for w
    unfolding low_def high_def by (rule get_cell_status_known [OF assms])
  show ?thesis
    unfolding low_def [symmetric] high_def [symmetric]
    using excl [of v] excl [of high] ll hh by (simp add: st fge_def)
qed

theorem get_cell_status_classification_witness:
  "cell_types init ''LFP'' =
     Some \<lparr>nominal_voltage = float_of_rat (32 / 10), minimum_voltage = float_of_rat (28 / 10),
           maximum_voltage = float_of_rat (36 / 10), name = ''Lithium Iron Phosphate''\<rparr>
   \<and> get_cell_status init (float_of_rat (28 / 10)) ''LFP'' = Inr ''LOW''
   \<and> get_cell_status init (float_of_rat (36 / 10)) ''LFP'' = Inr ''HIGH''
   \<and> get_cell_status init (float_of_rat (32 / 10)) ''LFP'' = Inr ''NORMAL''"
proof -
  let ?sp = "\<lparr>nominal_voltage = float_of_rat (32 / 10), minimum_voltage = float_of_rat (28 / 10),
           maximum_voltage = float_of_rat (36 / 10), name = ''Lithium Iron Phosphate''\<rparr>"
  have h: "cell_types init ''LFP'' = Some ?sp" by (simp add: init_def)
  have a: "get_cell_status init (float_of_rat (28 / 10)) ''LFP'' = Inr ''LOW''"
    using get_cell_status_classification [OF h, of "float_of_rat (28 / 10)"]
    by (simp add: float_lits low_LFP)
  have b: "get_cell_status init (float_of_rat (36 / 10)) ''LFP'' = Inr ''HIGH''"
    using get_cell_status_classification [OF h, of "float_of_rat (36 / 10)"]
    by (simp add: float_lits high_LFP fge_def)
  have c: "get_cell_status init (float_of_rat (32 / 10)) ''LFP'' = Inr ''NORMAL''"
    using get_cell_status_classification [OF h, of "float_of_rat (32 / 10)"]
    by (simp add: float_lits low_LFP high_LFP fge_def)
  from h a b c show ?thesis by (intro conjI)
qed

section \<open>State of charge\<close>

lemma round_half_even_numeral [simp]: "round_half_even (numeral n) = numeral n"
  using round_half_even_of_int [of "numeral n"] by simp

lemma fdiv_Fin:
  assumes "r \<noteq> 0"
  shows "\<exists>ratio. fdiv x (Fin r) = Inr ratio \<and> double_like ratio"
  using assms by (cases x) (simp_all add: float_of_rat_double_like)

lemma py_round_cases:
  assumes "py_round x n = Inr r"
  shows "(\<exists>k. r = float_of_rat (of_int k / 10 ^ n)) \<or> r = PInf \<or> r = NInf \<or> r = NaN"
proof (cases x)
  case (Fin q)
  with assms have "r = float_of_rat (of_int (round_half_even (q * 10 ^ n)) / 10 ^ n)"
    by (cases "float_of_rat (of_int (round_half_even (q * 10 ^ n)) / 10 ^ n)")
       (simp_all add: py_round_def)
  then show ?thesis by blast
qed (use assms in \<open>simp_all add: py_round_def\<close>)

lemma clamp_cases:
  "py_max (Fin 0) (py_min (Fin 100) x) = Fin 0 \<or> py_max (Fin 0) (py_min (Fin 100) x) = Fin 100
   \<or> (py_max (Fin 0) (py_min (Fin 100) x) = x \<and> flt (Fin 0) x \<and> flt x (Fin 100))"
  by (cases x) (auto simp: py_max_def py_min_def fgt_def)

lemma calculate_soc_formula:
  assumes "cell_types init t = Some sp"
  shows "\<exists>ratio rounded.
           fdiv (fsub v (minimum_voltage sp)) (fsub (maximum_voltage sp) (minimum_voltage sp)) = Inr ratio
         \<and> py_round (fmul ratio (Fin 100)) 1 = Inr rounded
         \<and> calculate_soc init v t = Inr (py_max (Fin 0) (py_min (Fin 100) rounded))"
proof -
  from profile_range [OF assms] obtain r
    where r: "fsub (maximum_voltage sp) (minimum_voltage sp) = Fin r" and r0: "r \<noteq> 0"
    by (cases "fsub (maximum_voltage sp) (minimum_voltage sp)") auto
  from fdiv_Fin [OF r0] obtain ratio
    where ratio: "fdiv (fsub v (minimum_voltage sp)) (Fin r) = Inr ratio" by blast
  from py_round_total [of "fmul ratio (Fin 100)" 1] obtain rounded
    where rounded: "py_round (fmul ratio (Fin 100)) 1 = Inr rounded" by auto
  have "calculate_soc init v t = Inr (py_max (Fin 0) (py_min (Fin 100) rounded))"
    using assms ratio rounded by (simp add: calculate_soc_def r Let_def)
  with ratio rounded show ?thesis unfolding r by blast
qed

lemma calculate_soc_minimum:
  assumes "cell_types init t = Some sp"
  shows "calculate_soc init (minimum_voltage sp) t = Inr (Fin 0)"
proof -
  from profile_range [OF assms] obtain r
    where r: "fsub (maximum_voltage sp) (minimum_voltage sp) = Fin r" and r0: "r \<noteq> 0"
    by (cases "fsub (maximum_voltage sp) (minimum_voltage sp)") auto
  from profile_finite [OF assms] obtain lo where lo: "minimum_voltage sp = Fin lo"
    using flt_Fin_PInf_iff by blast
  have z: "fsub (minimum_voltage sp) (minimum_voltage sp) = Fin 0" by (simp add: lo)
  show ?thesis
    using assms r0
    by (simp add: calculate_soc_def r z Let_def py_round_def py_max_def py_min_def fgt_def)
qed

lemma calculate_soc_maximum:
  assumes "cell_types init t = Some sp"
  shows "calculate_soc init (maximum_voltage sp) t = Inr (Fin 100)"
proof -
  from profile_range [OF assms] obtain r
    where r: "fsub (maximum_voltage sp) (minimum_voltage sp) = Fin r" and r0: "r \<noteq> 0"
    by (cases "fsub (maximum_voltage sp) (minimum_voltage sp)") auto
  show ?thesis
    using assms r0
    by (simp add: calculate_soc_def r Let_def float_int_1 float_int_100
        py_round_def py_max_def py_min_def fgt_def)
qed

lemma soc_example_sub: "float_of_rat (295548725546189 / 1125899906842624) = Fin (295548725546189 / 1125899906842624)"
  using float_of_rat_normal [of "- 2" "295548725546189 / 1125899906842624" 4728779608739024] by simp

lemma soc_example_div: "float_of_rat (591097451092378 / 1801439850948199) = Fin (2955487255461889 / 9007199254740992)"
  using float_of_rat_normal [of "- 2" "591097451092378 / 1801439850948199" 5910974510923778] by simp

lemma soc_example_mul: "float_of_rat (73887181386547225 / 2251799813685248) = Fin (2308974418329601 / 70368744177664)"
  using float_of_rat_normal [of 5 "73887181386547225 / 2251799813685248" 4617948836659202] by simp

lemma soc_example_round: "round_half_even (11544872091648005 / 35184372088832) = 328"
  using round_half_even_unique [of "11544872091648005 / 35184372088832" 328] by simp

lemma soc_example_decimal: "float_of_rat (164 / 5) = Fin (2308094809027379 / 70368744177664)"
  using float_of_rat_normal [of 5 "164 / 5" 4616189618054758] by simp

lemma init_LFP:
  "cell_types init ''LFP'' = Some \<lparr>nominal_voltage = float_of_rat (32 / 10), minimum_voltage = float_of_rat (28 / 10),
           maximum_voltage = float_of_rat (36 / 10), name = ''Lithium Iron Phosphate''\<rparr>"
  by (simp add: init_def)

lemma float_exact_3_0625: "float_of_rat (49 / 16) = Fin (49 / 16)"
  using float_of_rat_normal [of 1 "49 / 16" 6896136929411072] by simp

lemma calculate_soc_example:
  "calculate_soc init (Fin (49 / 16)) ''LFP'' = Inr (Fin (2308094809027379 / 70368744177664))"
  by (simp add: calculate_soc_def init_LFP Let_def float_lits float_exact_3_0625 range_LFP soc_example_sub
      soc_example_div soc_example_mul soc_example_round soc_example_decimal
      py_round_def py_max_def py_min_def fgt_def)

text \<open>
  C1, as stated, fails: for LFP at 3.0625 V the formula gives the float
  32.812500000000014, which the clamp leaves as it is, and the code returns 32.8.
\<close>

theorem calculate_soc_unrounded_counterexample:
  "calculate_soc init (float_of_rat (49 / 16)) ''LFP'' = Inr (Fin (2308094809027379 / 70368744177664))
   \<and> fdiv (fsub (float_of_rat (49 / 16)) (float_of_rat (28 / 10)))
           (fsub (float_of_rat (36 / 10)) (float_of_rat (28 / 10))) = Inr (Fin (2955487255461889 / 9007199254740992))
   \<and> py_max (Fin 0) (py_min (Fin 100) (fmul (Fin (2955487255461889 / 9007199254740992)) (Fin 100))) = Fin (2308974418329601 / 70368744177664)
   \<and> Fin (2308094809027379 / 70368744177664) \<noteq> Fin (2308974418329601 / 70368744177664)"
  by (simp add: calculate_soc_example float_lits float_exact_3_0625 range_LFP soc_example_sub
      soc_example_div soc_example_mul py_max_def py_min_def fgt_def)

text \<open>
  C1, amended: for each of the four chemistries and every voltage, the state of charge is
  the float formula \<open>(voltage - min) / (max - min) * 100\<close> rounded to one decimal and
  then clamped to \<open>[0, 100]\<close>, so it lies between 0 and 100; it is 0 at the minimum
  voltage and 100 at the maximum voltage of the profile.
\<close>

theorem calculate_soc_rounded_clamped:
  assumes "cell_types init t = Some sp"
  shows "(\<exists>ratio rounded q.
            fdiv (fsub v (minimum_voltage sp))
                 (fsub (maximum_voltage sp) (minimum_voltage sp)) = Inr ratio
          \<and> py_round (fmul ratio (Fin 100)) 1 = Inr rounded
          \<and> calculate_soc init v t = Inr (py_max (Fin 0) (py_min (Fin 100) rounded))
          \<and> calculate_soc init v t = Inr (Fin q) \<and> 0 \<le> q \<and> q \<le> 100)
       \<and> calculate_soc init (minimum_voltage sp) t = Inr (Fin 0)
       \<and> calculate_soc init (maximum_voltage sp) t = Inr (Fin 100)"
proof -
  from calculate_soc_formula [OF assms, of v] obtain ratio rounded where
    f: "fdiv (fsub v (minimum_voltage sp))
             (fsub (maximum_voltage sp) (minimum_voltage sp)) = Inr ratio"
       "py_round (fmul ratio (Fin 100)) 1 = Inr rounded"
       "calculate_soc init v t = Inr (py_max (Fin 0) (py_min (Fin 100) rounded))"
    by blast
  from clamp_range [of rounded] obtain q where
    q: "py_max (Fin 0) (py_min (Fin 100) rounded) = Fin q" "0 \<le> q" "q \<le> 100" by blast
  from f q have "\<exists>ratio rounded q.
            fdiv (fsub v (minimum_voltage sp))
                 (fsub (maximum_voltage sp) (minimum_voltage sp)) = Inr ratio
          \<and> py_round (fmul ratio (Fin 100)) 1 = Inr rounded
          \<and> calculate_soc init v t = Inr (py_max (Fin 0) (py_min (Fin 100) rounded))
          \<and> calculate_soc init v t = Inr (Fin q) \<and> 0 \<le> q \<and> q \<le> 100"
    by (metis (no_types))
  then show ?thesis
    using calculate_soc_minimum [OF assms] calculate_soc_maximum [OF assms] by (intro conjI)
qed

theorem calculate_soc_rounded_clamped_witness:
  "cell_types init ''LFP'' = Some \<lparr>nominal_voltage = float_of_rat (32 / 10), minimum_voltage = float_of_rat (28 / 10),
           maximum_voltage = float_of_rat (36 / 10), name = ''Lithium Iron Phosphate''\<rparr>
   \<and> calculate_soc init (float_of_rat (28 / 10)) ''LFP'' = Inr (Fin 0)
   \<and> calculate_soc init (float_of_rat (36 / 10)) ''LFP'' = Inr (Fin 100)"
proof -
  let ?sp = "\<lparr>nominal_voltage = float_of_rat (32 / 10), minimum_voltage = float_of_rat (28 / 10),
           maximum_voltage = float_of_rat (36 / 10), name = ''Lithium Iron Phosphate''\<rparr>"
  have h: "cell_types init ''LFP'' = Some ?sp" by (rule init_LFP)
  from calculate_soc_rounded_clamped [OF h]
  have "calculate_soc init (minimum_voltage ?sp) ''LFP'' = Inr (Fin 0)"
    and "calculate_soc init (maximum_voltage ?sp) ''LFP'' = Inr (Fin 100)" by blast+
  then have "calculate_soc init (float_of_rat (28 / 10)) ''LFP'' = Inr (Fin 0)"
    and "calculate_soc init (float_of_rat (36 / 10)) ''LFP'' = Inr (Fin 100)"
    by (simp_all only: specs.simps)
  with h show ?thesis by (intro conjI)
qed

text \<open>
  C10: for each of the four chemistries and every voltage, the raw percentage is rounded
  to one decimal before it is clamped, and what is returned is the float of some number
  of tenths.
\<close>

theorem calculate_soc_one_decimal:
  assumes "cell_types init t = Some sp"
  shows "\<exists>ratio rounded k.
            fdiv (fsub v (minimum_voltage sp))
                 (fsub (maximum_voltage sp) (minimum_voltage sp)) = Inr ratio
          \<and> py_round (fmul ratio (Fin 100)) 1 = Inr rounded
          \<and> calculate_soc init v t = Inr (py_max (Fin 0) (py_min (Fin 100) rounded))
          \<and> calculate_soc init v t = Inr (float_of_rat (of_int k / 10))"
proof -
  from calculate_soc_formula [OF assms, of v] obtain ratio rounded where
    f: "fdiv (fsub v (minimum_voltage sp))
             (fsub (maximum_voltage sp) (minimum_voltage sp)) = Inr ratio"
       "py_round (fmul ratio (Fin 100)) 1 = Inr rounded"
       "calculate_soc init v t = Inr (py_max (Fin 0) (py_min (Fin 100) rounded))"
    by blast
  have z: "Fin 0 = float_of_rat (of_int 0 / 10)" by simp
  have c: "Fin 100 = float_of_rat (of_int 1000 / 10)" by (simp add: float_int_100)
  have "\<exists>k. py_max (Fin 0) (py_min (Fin 100) rounded) = float_of_rat (of_int k / 10)"
    using clamp_cases [of rounded]
  proof (elim disjE conjE)
    assume "py_max (Fin 0) (py_min (Fin 100) rounded) = Fin 0"
    with z show ?thesis by metis
  next
    assume "py_max (Fin 0) (py_min (Fin 100) rounded) = Fin 100"
    with c show ?thesis by metis
  next
    assume a: "py_max (Fin 0) (py_min (Fin 100) rounded) = rounded"
      and b: "flt rounded (Fin 100)" and b': "flt (Fin 0) rounded"
    from py_round_cases [OF f(2)] b b' obtain k where "rounded = float_of_rat (of_int k / 10 ^ 1)"
      by auto
    with a show ?thesis by (metis power_one_right)
  qed
  with f show ?thesis by metis
qed

theorem calculate_soc_one_decimal_witness:
  "cell_types init ''LFP'' = Some \<lparr>nominal_voltage = float_of_rat (32 / 10), minimum_voltage = float_of_rat (28 / 10),
           maximum_voltage = float_of_rat (36 / 10), name = ''Lithium Iron Phosphate''\<rparr>
   \<and> (\<exists>k. calculate_soc init (Fin (49 / 16)) ''LFP'' = Inr (float_of_rat (of_int k / 10)))"
proof -
  have h: "cell_types init ''LFP'' = Some \<lparr>nominal_voltage = float_of_rat (32 / 10), minimum_voltage = float_of_rat (28 / 10),
           maximum_voltage = float_of_rat (36 / 10), name = ''Lithium Iron Phosphate''\<rparr>" by (rule init_LFP)
  from calculate_soc_one_decimal [OF h, of "Fin (49 / 16)"]
  have "\<exists>k. calculate_soc init (Fin (49 / 16)) ''LFP'' = Inr (float_of_rat (of_int k / 10))"
    by blast
  with h show ?thesis by (intro conjI)
qed

section \<open>Batch evaluation\<close>

lemma generate_random_temperature_total:
  "\<exists>tmp. py_round (fadd (Fin 20) (fmul (g 0) (Fin 25))) 1 = Inr tmp
         \<and> generate_random_temperature self g = (Inr tmp, \<lambda>n. g (Suc n))"
proof -
  from py_round_total [of "fadd (Fin 20) (fmul (g 0) (Fin 25))" 1] obtain tmp
    where "py_round (fadd (Fin 20) (fmul (g 0) (Fin 25))) 1 = Inr tmp" by auto
  then show ?thesis by (simp add: generate_random_temperature_def random_random_def)
qed

lemma process_cell_known:
  assumes "cell_types init (type c) = Some sp"
  shows "\<exists>p tmp soc st.
           py_round (fmul (voltage c) (current c)) 2 = Inr p
         \<and> py_round (fadd (Fin 20) (fmul (g 0) (Fin 25))) 1 = Inr tmp
         \<and> calculate_soc init (voltage c) (type c) = Inr soc
         \<and> get_cell_status init (voltage c) (type c) = Inr st
         \<and> process_cell init i c g =
             (Inr \<lparr>Cell_ID = ''Cell_'' @ string_of_nat i, Type = type c,
                   Voltage_V = voltage c, Current_A = current c, Power_W = p,
                   Temperature_C = tmp, SOC = soc, Status = st, Specs = sp\<rparr>,
              \<lambda>n. g (Suc n))"
proof -
  from py_round_total [of "fmul (voltage c) (current c)" 2] obtain p
    where p: "py_round (fmul (voltage c) (current c)) 2 = Inr p" by auto
  from generate_random_temperature_total [of g init] obtain tmp
    where tmp: "py_round (fadd (Fin 20) (fmul (g 0) (Fin 25))) 1 = Inr tmp"
      "generate_random_temperature init g = (Inr tmp, \<lambda>n. g (Suc n))" by blast
  from calculate_soc_formula [OF assms, of "voltage c"] obtain soc
    where soc: "calculate_soc init (voltage c) (type c) = Inr soc" by blast
  from get_cell_status_known [OF assms, of "voltage c"] obtain st
    where st: "get_cell_status init (voltage c) (type c) = Inr st" by (simp split: if_splits)
  have "process_cell init i c g =
             (Inr \<lparr>Cell_ID = ''Cell_'' @ string_of_nat i, Type = type c,
                   Voltage_V = voltage c, Current_A = current c, Power_W = p,
                   Temperature_C = tmp, SOC = soc, Status = st, Specs = sp\<rparr>,
              \<lambda>n. g (Suc n))"
    by (simp add: process_cell_def Let_def p tmp(2) soc st assms)
  with p tmp(1) soc st show ?thesis by blast
qed

lemma process_cell_unknown:
  assumes "cell_types self (type c) = None"
  shows "process_cell self i c g = (Inl (KeyError (type c)), \<lambda>n. g (Suc n))"
proof -
  from py_round_total [of "fmul (voltage c) (current c)" 2] obtain p
    where p: "py_round (fmul (voltage c) (current c)) 2 = Inr p" by auto
  from generate_random_temperature_total [of g self] obtain tmp
    where tmp: "generate_random_temperature self g = (Inr tmp, \<lambda>n. g (Suc n))" by blast
  show ?thesis
    by (simp add: process_cell_def Let_def p tmp calculate_soc_def assms)
qed

lemma process_cells_loop_known:
  assumes "\<forall>c \<in> set cfg. type c \<in> dom (cell_types init)"
  shows "\<exists>rs. process_cells_loop init i cfg acc g = (Inr (acc @ rs), \<lambda>n. g (n + length cfg))
            \<and> length rs = length cfg
            \<and> (\<forall>j < length cfg.
                  fst (process_cell init (i + j) (cfg ! j) (\<lambda>n. g (n + j))) = Inr (rs ! j))"
  using assms
proof (induction cfg arbitrary: i acc g)
  case Nil
  then show ?case by simp
next
  case (Cons c cfg)
  from Cons.prems obtain sp where sp: "cell_types init (type c) = Some sp" by auto
  from process_cell_known [OF sp, of g i] obtain cell
    where cell: "process_cell init i c g = (Inr cell, \<lambda>n. g (Suc n))" by blast
  from Cons.prems have "\<forall>c \<in> set cfg. type c \<in> dom (cell_types init)" by simp
  from Cons.IH [OF this, of "Suc i" "acc @ [cell]" "\<lambda>n. g (Suc n)"] obtain rs where
    rs: "process_cells_loop init (Suc i) cfg (acc @ [cell]) (\<lambda>n. g (Suc n))
           = (Inr ((acc @ [cell]) @ rs), \<lambda>n. g (Suc (n + length cfg)))"
        "length rs = length cfg"
        "\<forall>j < length cfg.
           fst (process_cell init (Suc i + j) (cfg ! j) (\<lambda>n. g (Suc (n + j)))) = Inr (rs ! j)"
    by blast
  have "process_cells_loop init i (c # cfg) acc g
          = (Inr (acc @ (cell # rs)), \<lambda>n. g (n + length (c # cfg)))"
    by (simp add: cell rs(1))
  moreover have "length (cell # rs) = length (c # cfg)" by (simp add: rs(2))
  moreover have "\<forall>j < length (c # cfg).
      fst (process_cell init (i + j) ((c # cfg) ! j) (\<lambda>n. g (n + j))) = Inr ((cell # rs) ! j)"
  proof (intro allI impI)
    fix j assume j: "j < length (c # cfg)"
    show "fst (process_cell init (i + j) ((c # cfg) ! j) (\<lambda>n. g (n + j))) = Inr ((cell # rs) ! j)"
    proof (cases j)
      case 0
      then show ?thesis by (simp add: cell)
    next
      case (Suc k)
      with j rs(3) show ?thesis by simp
    qed
  qed
  ultimately show ?case by blast
qed

lemma process_cells_loop_unknown:
  assumes "\<exists>c \<in> set cfg. type c \<notin> dom (cell_types init)"
  shows "\<exists>c \<in> set cfg. type c \<notin> dom (cell_types init)
           \<and> fst (process_cells_loop init i cfg acc g) = Inl (KeyError (type c))"
  using assms
proof (induction cfg arbitrary: i acc g)
  case Nil
  then show ?case by simp
next
  case (Cons c cfg)
  show ?case
  proof (cases "cell_types init (type c)")
    case None
    then have "fst (process_cells_loop init i (c # cfg) acc g) = Inl (KeyError (type c))"
      by (simp add: process_cell_unknown)
    moreover have "type c \<notin> dom (cell_types init)" using None by auto
    ultimately show ?thesis by auto
  next
    case (Some sp)
    from process_cell_known [OF Some, of g i] obtain cell
      where cell: "process_cell init i c g = (Inr cell, \<lambda>n. g (Suc n))" by blast
    from Cons.prems Some have "\<exists>c \<in> set cfg. type c \<notin> dom (cell_types init)" by auto
    from Cons.IH [OF this, of "Suc i" "acc @ [cell]" "\<lambda>n. g (Suc n)"]
    show ?thesis by (auto simp: cell)
  qed
qed

lemma float_exact_3_2: "float_of_rat (3602879701896397 / 1125899906842624) = Fin (3602879701896397 / 1125899906842624)"
  using float_of_rat_normal [of 1 "3602879701896397 / 1125899906842624" 7205759403792794] by simp

lemma round_3_2_cents: "round_half_even (90071992547409925 / 281474976710656) = 320"
  using round_half_even_unique [of "90071992547409925 / 281474976710656" 320] by simp

lemma float_exact_2_8: "float_of_rat (3152519739159347 / 1125899906842624) = Fin (3152519739159347 / 1125899906842624)"
  using float_of_rat_normal [of 1 "3152519739159347 / 1125899906842624" 6305039478318694] by simp

lemma round_2_8_cents: "round_half_even (78812993478983675 / 281474976710656) = 280"
  using round_half_even_unique [of "78812993478983675 / 281474976710656" 280] by simp

lemma power_example_3_2:
  "py_round (fmul (float_of_rat (32 / 10)) (float_of_rat 1)) 2 = Inr (float_of_rat (32 / 10))"
  by (simp add: py_round_def float_lits float_int_1 float_exact_3_2 round_3_2_cents)

lemma power_example_2_8:
  "py_round (fmul (float_of_rat (28 / 10)) (float_of_rat 1)) 2 = Inr (float_of_rat (28 / 10))"
  by (simp add: py_round_def float_lits float_int_1 float_exact_2_8 round_2_8_cents)

lemma process_cells_data_fields:
  assumes "\<forall>c \<in> set cfg. type c \<in> dom (cell_types init)"
  shows "\<exists>rs. process_cells_data init cfg g = (Inr rs, \<lambda>n. g (n + length cfg))
          \<and> length rs = length cfg
          \<and> (\<forall>j < length cfg.
                Cell_ID (rs ! j) = ''Cell_'' @ string_of_nat (Suc j)
              \<and> Type (rs ! j) = type (cfg ! j)
              \<and> Voltage_V (rs ! j) = voltage (cfg ! j)
              \<and> Current_A (rs ! j) = current (cfg ! j)
              \<and> py_round (fmul (voltage (cfg ! j)) (current (cfg ! j))) 2 = Inr (Power_W (rs ! j))
              \<and> py_round (fadd (Fin 20) (fmul (g j) (Fin 25))) 1 = Inr (Temperature_C (rs ! j))
              \<and> calculate_soc init (voltage (cfg ! j)) (type (cfg ! j)) = Inr (SOC (rs ! j))
              \<and> get_cell_status init (voltage (cfg ! j)) (type (cfg ! j)) = Inr (Status (rs ! j))
              \<and> cell_types init (type (cfg ! j)) = Some (Specs (rs ! j)))"
proof -
  from process_cells_loop_known [OF assms, of 1 "[]" g] obtain rs where
    rs: "process_cells_loop init 1 cfg [] g = (Inr rs, \<lambda>n. g (n + length cfg))"
        "length rs = length cfg"
        "\<forall>j < length cfg.
           fst (process_cell init (1 + j) (cfg ! j) (\<lambda>n. g (n + j))) = Inr (rs ! j)"
    by auto
  have "\<forall>j < length cfg.
        Cell_ID (rs ! j) = ''Cell_'' @ string_of_nat (Suc j)
      \<and> Type (rs ! j) = type (cfg ! j)
      \<and> Voltage_V (rs ! j) = voltage (cfg ! j)
      \<and> Current_A (rs ! j) = current (cfg ! j)
      \<and> py_round (fmul (voltage (cfg ! j)) (current (cfg ! j))) 2 = Inr (Power_W (rs ! j))
      \<and> py_round (fadd (Fin 20) (fmul (g j) (Fin 25))) 1 = Inr (Temperature_C (rs ! j))
      \<and> calculate_soc init (voltage (cfg ! j)) (type (cfg ! j)) = Inr (SOC (rs ! j))
      \<and> get_cell_status init (voltage (cfg ! j)) (type (cfg ! j)) = Inr (Status (rs ! j))
      \<and> cell_types init (type (cfg ! j)) = Some (Specs (rs ! j))"
  proof (intro allI impI)
    fix j assume j: "j < length cfg"
    from j assms obtain sp where sp: "cell_types init (type (cfg ! j)) = Some sp"
      by (metis domD nth_mem)
    from rs(3) j have r: "fst (process_cell init (Suc j) (cfg ! j) (\<lambda>n. g (n + j))) = Inr (rs ! j)"
      by simp
    from process_cell_known [OF sp, of "\<lambda>n. g (n + j)" "Suc j"] obtain p tmp soc st where
      f: "py_round (fmul (voltage (cfg ! j)) (current (cfg ! j))) 2 = Inr p"
         "py_round (fadd (Fin 20) (fmul (g (0 + j)) (Fin 25))) 1 = Inr tmp"
         "calculate_soc init (voltage (cfg ! j)) (type (cfg ! j)) = Inr soc"
         "get_cell_status init (voltage (cfg ! j)) (type (cfg ! j)) = Inr st"
         "process_cell init (Suc j) (cfg ! j) (\<lambda>n. g (n + j)) =
             (Inr \<lparr>Cell_ID = ''Cell_'' @ string_of_nat (Suc j), Type = type (cfg ! j),
                   Voltage_V = voltage (cfg ! j), Current_A = current (cfg ! j), Power_W = p,
                   Temperature_C = tmp, SOC = soc, Status = st, Specs = sp\<rparr>,
              \<lambda>n. g (Suc n + j))"
      by blast
    from r f(5) have eq: "rs ! j = \<lparr>Cell_ID = ''Cell_'' @ string_of_nat (Suc j), Type = type (cfg ! j),
                   Voltage_V = voltage (cfg ! j), Current_A = current (cfg ! j), Power_W = p,
                   Temperature_C = tmp, SOC = soc, Status = st, Specs = sp\<rparr>" by simp
    show "Cell_ID (rs ! j) = ''Cell_'' @ string_of_nat (Suc j)
      \<and> Type (rs ! j) = type (cfg ! j)
      \<and> Voltage_V (rs ! j) = voltage (cfg ! j)
      \<and> Current_A (rs ! j) = current (cfg ! j)
      \<and> py_round (fmul (voltage (cfg ! j)) (current (cfg ! j))) 2 = Inr (Power_W (rs ! j))
      \<and> py_round (fadd (Fin 20) (fmul (g j) (Fin 25))) 1 = Inr (Temperature_C (rs ! j))
      \<and> calculate_soc init (voltage (cfg ! j)) (type (cfg ! j)) = Inr (SOC (rs ! j))
      \<and> get_cell_status init (voltage (cfg ! j)) (type (cfg ! j)) = Inr (Status (rs ! j))
      \<and> cell_types init (type (cfg ! j)) = Some (Specs (rs ! j))"
      using f(1-4) sp unfolding eq by simp
  qed
  moreover have "process_cells_data init cfg g = (Inr rs, \<lambda>n. g (n + length cfg))"
    using rs(1) by (simp add: process_cells_data_def)
  ultimately show ?thesis using rs(2) by (intro exI [of _ rs] conjI)
qed

text \<open>
  C3: when every reading names one of the four chemistries, batch evaluation returns one
  record per reading, in the order of the input, the record at position \<open>j\<close> (from 0)
  carrying the identifier \<open>Cell_\<close> followed by the decimal digits of \<open>j + 1\<close> and the
  type, voltage and current of the reading at that position; on the empty sequence it
  returns the empty sequence.
\<close>

theorem batch_order_and_identifiers:
  assumes "\<forall>c \<in> set cfg. type c \<in> {''LFP'', ''NMC'', ''LCO'', ''LTO''}"
  shows "(\<exists>rs. fst (process_cells_data init cfg g) = Inr rs
          \<and> length rs = length cfg
          \<and> (\<forall>j < length cfg.
                Cell_ID (rs ! j) = ''Cell_'' @ string_of_nat (j + 1)
              \<and> Type (rs ! j) = type (cfg ! j)
              \<and> Voltage_V (rs ! j) = voltage (cfg ! j)
              \<and> Current_A (rs ! j) = current (cfg ! j)))
       \<and> fst (process_cells_data init [] g) = Inr []"
proof -
  from assms have "\<forall>c \<in> set cfg. type c \<in> dom (cell_types init)" by (simp only: init_dom)
  from process_cells_data_fields [OF this, of g] obtain rs where
    "process_cells_data init cfg g = (Inr rs, \<lambda>n. g (n + length cfg))"
    "length rs = length cfg"
    "\<forall>j < length cfg.
                Cell_ID (rs ! j) = ''Cell_'' @ string_of_nat (Suc j)
              \<and> Type (rs ! j) = type (cfg ! j)
              \<and> Voltage_V (rs ! j) = voltage (cfg ! j)
              \<and> Current_A (rs ! j) = current (cfg ! j)
              \<and> py_round (fmul (voltage (cfg ! j)) (current (cfg ! j))) 2 = Inr (Power_W (rs ! j))
              \<and> py_round (fadd (Fin 20) (fmul (g j) (Fin 25))) 1 = Inr (Temperature_C (rs ! j))
              \<and> calculate_soc init (voltage (cfg ! j)) (type (cfg ! j)) = Inr (SOC (rs ! j))
              \<and> get_cell_status init (voltage (cfg ! j)) (type (cfg ! j)) = Inr (Status (rs ! j))
              \<and> cell_types init (type (cfg ! j)) = Some (Specs (rs ! j))"
    by blast
  then have "\<exists>rs. fst (process_cells_data init cfg g) = Inr rs
          \<and> length rs = length cfg
          \<and> (\<forall>j < length cfg.
                Cell_ID (rs ! j) = ''Cell_'' @ string_of_nat (j + 1)
              \<and> Type (rs ! j) = type (cfg ! j)
              \<and> Voltage_V (rs ! j) = voltage (cfg ! j)
              \<and> Current_A (rs ! j) = current (cfg ! j))"
    by (intro exI [of _ rs]) simp
  moreover have "fst (process_cells_data init [] g) = Inr []"
    by (simp add: process_cells_data_def)
  ultimately show ?thesis by (rule conjI)
qed

theorem batch_order_and_identifiers_witness:
  "type \<lparr>type = ''LFP'', voltage = float_of_rat (32 / 10), current = float_of_rat 1\<rparr>
     \<in> {''LFP'', ''NMC'', ''LCO'', ''LTO''}
   \<and> type \<lparr>type = ''NMC'', voltage = float_of_rat (36 / 10), current = float_of_rat 1\<rparr>
     \<in> {''LFP'', ''NMC'', ''LCO'', ''LTO''}
   \<and> (\<exists>rs. fst (process_cells_data init
               [\<lparr>type = ''LFP'', voltage = float_of_rat (32 / 10), current = float_of_rat 1\<rparr>,
                \<lparr>type = ''NMC'', voltage = float_of_rat (36 / 10), current = float_of_rat 1\<rparr>]
               (\<lambda>n. Fin 0)) = Inr rs
          \<and> length rs = 2
          \<and> Cell_ID (rs ! 0) = ''Cell_1'' \<and> Type (rs ! 0) = ''LFP''
          \<and> Cell_ID (rs ! 1) = ''Cell_2'' \<and> Type (rs ! 1) = ''NMC'')"
proof -
  let ?cfg = "[\<lparr>type = ''LFP'', voltage = float_of_rat (32 / 10), current = float_of_rat 1\<rparr>,
               \<lparr>type = ''NMC'', voltage = float_of_rat (36 / 10), current = float_of_rat 1\<rparr>]"
  have h: "\<forall>c \<in> set ?cfg. type c \<in> {''LFP'', ''NMC'', ''LCO'', ''LTO''}" by simp
  from batch_order_and_identifiers [OF h, of "\<lambda>n. Fin 0"] obtain rs where
    rs: "fst (process_cells_data init ?cfg (\<lambda>n. Fin 0)) = Inr rs" "length rs = length ?cfg"
      "\<forall>j < length ?cfg.
                Cell_ID (rs ! j) = ''Cell_'' @ string_of_nat (j + 1)
              \<and> Type (rs ! j) = type (?cfg ! j)
              \<and> Voltage_V (rs ! j) = voltage (?cfg ! j)
              \<and> Current_A (rs ! j) = current (?cfg ! j)"
    by blast
  from rs(3) have "Cell_ID (rs ! 0) = ''Cell_'' @ string_of_nat (0 + 1) \<and> Type (rs ! 0) = type (?cfg ! 0)"
    and "Cell_ID (rs ! 1) = ''Cell_'' @ string_of_nat (1 + 1) \<and> Type (rs ! 1) = type (?cfg ! 1)"
    by simp_all
  then have "Cell_ID (rs ! 0) = ''Cell_1''" "Type (rs ! 0) = ''LFP''"
    "Cell_ID (rs ! 1) = ''Cell_2''" "Type (rs ! 1) = ''NMC''"
    by (simp_all add: string_of_nat.simps)
  with rs(1,2) have "\<exists>rs. fst (process_cells_data init ?cfg (\<lambda>n. Fin 0)) = Inr rs
          \<and> length rs = 2
          \<and> Cell_ID (rs ! 0) = ''Cell_1'' \<and> Type (rs ! 0) = ''LFP''
          \<and> Cell_ID (rs ! 1) = ''Cell_2'' \<and> Type (rs ! 1) = ''NMC''"
    by (intro exI [of _ rs]) simp
  then show ?thesis by simp
qed

text \<open>
  C4: batch evaluation ends with the exception \<open>KeyError\<close> (the code's name for the
  specification's UnknownChemistry) exactly when some reading names a chemistry outside
  the four of the table; it ends with no other exception, the key of the exception is the
  unknown chemistry of a reading, and so a sequence that contains the reading of type XYZ
  with 3.0 V and 1.0 A ends with it.
\<close>

theorem unknown_chemistry_raises:
  "((\<exists>t. fst (process_cells_data init cfg g) = Inl (KeyError t))
      \<longleftrightarrow> (\<exists>c \<in> set cfg. type c \<notin> {''LFP'', ''NMC'', ''LCO'', ''LTO''}))
   \<and> (\<forall>e. fst (process_cells_data init cfg g) = Inl e
          \<longrightarrow> (\<exists>c \<in> set cfg. type c \<notin> {''LFP'', ''NMC'', ''LCO'', ''LTO''} \<and> e = KeyError (type c)))
   \<and> (\<lparr>type = ''XYZ'', voltage = float_of_rat 3, current = float_of_rat 1\<rparr> \<in> set cfg
          \<longrightarrow> (\<exists>t. fst (process_cells_data init cfg g) = Inl (KeyError t)))"
proof -
  have err: "\<exists>c \<in> set cfg. type c \<notin> {''LFP'', ''NMC'', ''LCO'', ''LTO''}
               \<and> fst (process_cells_data init cfg g) = Inl (KeyError (type c))"
    if "\<exists>c \<in> set cfg. type c \<notin> {''LFP'', ''NMC'', ''LCO'', ''LTO''}"
  proof -
    from that have "\<exists>c \<in> set cfg. type c \<notin> dom (cell_types init)" by (simp only: init_dom)
    from process_cells_loop_unknown [OF this, of 1 "[]" g]
    show ?thesis by (simp only: init_dom process_cells_data_def)
  qed
  have ok: "\<exists>rs. fst (process_cells_data init cfg g) = Inr rs"
    if "\<not> (\<exists>c \<in> set cfg. type c \<notin> {''LFP'', ''NMC'', ''LCO'', ''LTO''})"
  proof -
    from that have "\<forall>c \<in> set cfg. type c \<in> dom (cell_types init)" by (simp only: init_dom) blast
    from process_cells_data_fields [OF this, of g] show ?thesis by force
  qed
  have a: "(\<exists>t. fst (process_cells_data init cfg g) = Inl (KeyError t))
      \<longleftrightarrow> (\<exists>c \<in> set cfg. type c \<notin> {''LFP'', ''NMC'', ''LCO'', ''LTO''})"
    using err ok by (metis Inl_Inr_False)
  have b: "\<forall>e. fst (process_cells_data init cfg g) = Inl e
          \<longrightarrow> (\<exists>c \<in> set cfg. type c \<notin> {''LFP'', ''NMC'', ''LCO'', ''LTO''} \<and> e = KeyError (type c))"
    using err ok by (metis Inl_Inr_False sum.inject(1))
  have c: "\<lparr>type = ''XYZ'', voltage = float_of_rat 3, current = float_of_rat 1\<rparr> \<in> set cfg
          \<longrightarrow> (\<exists>t. fst (process_cells_data init cfg g) = Inl (KeyError t))"
  proof
    assume m: "\<lparr>type = ''XYZ'', voltage = float_of_rat 3, current = float_of_rat 1\<rparr> \<in> set cfg"
    have "type \<lparr>type = ''XYZ'', voltage = float_of_rat 3, current = float_of_rat 1\<rparr>
            \<notin> {''LFP'', ''NMC'', ''LCO'', ''LTO''}" by simp
    with m have "\<exists>c \<in> set cfg. type c \<notin> {''LFP'', ''NMC'', ''LCO'', ''LTO''}" by blast
    with a show "\<exists>t. fst (process_cells_data init cfg g) = Inl (KeyError t)" by blast
  qed
  from a b c show ?thesis by (intro conjI)
qed

theorem unknown_chemistry_raises_witness:
  "\<lparr>type = ''XYZ'', voltage = float_of_rat 3, current = float_of_rat 1\<rparr>
     \<in> set [\<lparr>type = ''XYZ'', voltage = float_of_rat 3, current = float_of_rat 1\<rparr>]
   \<and> fst (process_cells_data init
            [\<lparr>type = ''XYZ'', voltage = float_of_rat 3, current = float_of_rat 1\<rparr>] (\<lambda>n. Fin 0))
       = Inl (KeyError ''XYZ'')"
proof -
  let ?c = "\<lparr>type = ''XYZ'', voltage = float_of_rat 3, current = float_of_rat 1\<rparr>"
  have h: "?c \<in> set [?c]" by simp
  from unknown_chemistry_raises [of "[?c]" "\<lambda>n. Fin 0"] h obtain t where
    t: "fst (process_cells_data init [?c] (\<lambda>n. Fin 0)) = Inl (KeyError t)" by blast
  from unknown_chemistry_raises [of "[?c]" "\<lambda>n. Fin 0"] t
  have "\<exists>c \<in> set [?c]. KeyError t = KeyError (type c)" by blast
  then have "t = ''XYZ''" by simp
  with t have "fst (process_cells_data init [?c] (\<lambda>n. Fin 0)) = Inl (KeyError ''XYZ'')" by simp
  with h show ?thesis by (rule conjI)
qed

text \<open>
  C5: in every record that batch evaluation returns, the power is \<open>round(v * i, 2)\<close> for
  the voltage and current of the reading at the same position; \<open>round(3.2 * 1.0, 2)\<close> is
  3.2; and the record for the single LFP reading with 2.8 V and 1.0 A has power 2.8.
\<close>

theorem power_rounded_to_cents:
  assumes "fst (process_cells_data init cfg g) = Inr rs" and "j < length rs"
  shows "j < length cfg
       \<and> py_round (fmul (voltage (cfg ! j)) (current (cfg ! j))) 2 = Inr (Power_W (rs ! j))
       \<and> py_round (fmul (float_of_rat (32 / 10)) (float_of_rat 1)) 2 = Inr (float_of_rat (32 / 10))
       \<and> (cfg = [\<lparr>type = ''LFP'', voltage = float_of_rat (28 / 10), current = float_of_rat 1\<rparr>]
            \<longrightarrow> Power_W (rs ! 0) = float_of_rat (28 / 10))"
proof -
  have known: "\<forall>c \<in> set cfg. type c \<in> dom (cell_types init)"
  proof (rule ccontr)
    assume "\<not> (\<forall>c \<in> set cfg. type c \<in> dom (cell_types init))"
    then have "\<exists>c \<in> set cfg. type c \<notin> dom (cell_types init)" by blast
    from process_cells_loop_unknown [OF this, of 1 "[]" g] assms(1)
    show False by (auto simp: process_cells_data_def)
  qed
  from process_cells_data_fields [OF known, of g] assms(1) have
    len: "length rs = length cfg" and
    pw: "\<forall>j < length cfg.
           py_round (fmul (voltage (cfg ! j)) (current (cfg ! j))) 2 = Inr (Power_W (rs ! j))"
    by auto
  from len assms(2) have j: "j < length cfg" by simp
  have e2e: "Power_W (rs ! 0) = float_of_rat (28 / 10)"
    if "cfg = [\<lparr>type = ''LFP'', voltage = float_of_rat (28 / 10), current = float_of_rat 1\<rparr>]"
  proof -
    from pw that have "py_round (fmul (float_of_rat (28 / 10)) (float_of_rat 1)) 2 = Inr (Power_W (rs ! 0))"
      by simp
    then show ?thesis by (simp only: power_example_2_8 sum.inject)
  qed
  from j pw e2e power_example_3_2 show ?thesis by blast
qed

theorem power_rounded_to_cents_witness:
  "\<exists>rs. fst (process_cells_data init
             [\<lparr>type = ''LFP'', voltage = float_of_rat (28 / 10), current = float_of_rat 1\<rparr>]
             (\<lambda>n. Fin 0)) = Inr rs
        \<and> 0 < length rs
        \<and> Power_W (rs ! 0) = float_of_rat (28 / 10)"
proof -
  let ?cfg = "[\<lparr>type = ''LFP'', voltage = float_of_rat (28 / 10), current = float_of_rat 1\<rparr>]"
  have "\<forall>c \<in> set ?cfg. type c \<in> dom (cell_types init)" by (simp add: init_dom)
  from process_cells_data_fields [OF this, of "\<lambda>n. Fin 0"] obtain rs where
    rs: "fst (process_cells_data init ?cfg (\<lambda>n. Fin 0)) = Inr rs" and len: "0 < length rs"
    by force
  from power_rounded_to_cents [OF rs len] have "Power_W (rs ! 0) = float_of_rat (28 / 10)"
    by blast
  with rs len show ?thesis by blast
qed

section \<open>Batch evaluation and the random source\<close>



lemma float_exact_0_5: "float_of_rat (1 / 2) = Fin (1 / 2)"
  using float_of_rat_normal [of "- 1" "1 / 2" 4503599627370496] by simp

lemma float_exact_0_75: "float_of_rat (3 / 4) = Fin (3 / 4)"
  using float_of_rat_normal [of "- 1" "3 / 4" 6755399441055744] by simp






section \<open>The perturbation step of the monitoring loop\<close>

lemma tick_neg_0_05: "float_of_rat (- (3602879701896397 / 72057594037927936)) = Fin (- (3602879701896397 / 72057594037927936))"
  using float_of_rat_normal [of "- 5" "- (3602879701896397 / 72057594037927936)" "- 7205759403792794"] by simp

lemma tick_width_0_05: "float_of_rat (3602879701896397 / 36028797018963968) = Fin (3602879701896397 / 36028797018963968)"
  using float_of_rat_normal [of "- 4" "3602879701896397 / 36028797018963968" 7205759403792794] by simp

lemma tick_scaled_v: "float_of_rat (10808639105689191 / 144115188075855872) = Fin (1351079888211149 / 18014398509481984)"
  using float_of_rat_tie [of "- 4" "10808639105689191 / 144115188075855872" 5404319552844596] round_half_even_tie [of "10808639105689191 / 2" 5404319552844595] by simp

lemma tick_dv: "float_of_rat (1801439850948199 / 72057594037927936) = Fin (1801439850948199 / 72057594037927936)"
  using float_of_rat_normal [of "- 6" "1801439850948199 / 72057594037927936" 7205759403792796] by simp

lemma tick_sum_v: "float_of_rat (217974221964732007 / 72057594037927936) = Fin (6811694436397875 / 2251799813685248)"
  using float_of_rat_normal [of 1 "217974221964732007 / 72057594037927936" 6811694436397875] by simp

lemma tick_round_v: "round_half_even (170292360909946875 / 562949953421312) = 302"
  using round_half_even_unique [of "170292360909946875 / 562949953421312" 302] by simp

lemma tick_dec_v: "float_of_rat (151 / 50) = Fin (6800435437329449 / 2251799813685248)"
  using float_of_rat_normal [of 1 "151 / 50" 6800435437329449] by simp

lemma tick_neg_0_1: "float_of_rat (- (3602879701896397 / 36028797018963968)) = Fin (- (3602879701896397 / 36028797018963968))"
  using float_of_rat_normal [of "- 4" "- (3602879701896397 / 36028797018963968)" "- 7205759403792794"] by simp

lemma tick_width_0_1: "float_of_rat (3602879701896397 / 18014398509481984) = Fin (3602879701896397 / 18014398509481984)"
  using float_of_rat_normal [of "- 3" "3602879701896397 / 18014398509481984" 7205759403792794] by simp

lemma tick_scaled_c: "float_of_rat (3602879701896397 / 36028797018963968) = Fin (3602879701896397 / 36028797018963968)"
  using float_of_rat_normal [of "- 4" "3602879701896397 / 36028797018963968" 7205759403792794] by simp

lemma double_like_py_max: "double_like a \<Longrightarrow> double_like b \<Longrightarrow> double_like (py_max a b)"
  by (simp add: py_max_def)

lemma perturb_cell_result:
  "\<exists>v c.
      py_round (py_max (Fin 0) (fadd (voltage config)
        (fst (random_uniform (fsub (Fin 0) (float_of_rat (5 / 100))) (float_of_rat (5 / 100)) g)))) 2
        = Inr v
    \<and> py_round (py_max (Fin 0) (fadd (current config)
        (fst (random_uniform (fsub (Fin 0) (float_of_rat (1 / 10))) (float_of_rat (1 / 10))
           (snd (random_uniform (fsub (Fin 0) (float_of_rat (5 / 100))) (float_of_rat (5 / 100)) g)))))) 2
        = Inr c
    \<and> perturb_cell config g = (Inr (config\<lparr>voltage := v, current := c\<rparr>), \<lambda>n. g (Suc (Suc n)))
    \<and> fle (Fin 0) v \<and> fle (Fin 0) c"
proof -
  define dv where "dv = fst (random_uniform (fsub (Fin 0) (float_of_rat (5 / 100))) (float_of_rat (5 / 100)) g)"
  define g1 where "g1 = snd (random_uniform (fsub (Fin 0) (float_of_rat (5 / 100))) (float_of_rat (5 / 100)) g)"
  define di where "di = fst (random_uniform (fsub (Fin 0) (float_of_rat (1 / 10))) (float_of_rat (1 / 10)) g1)"
  define g2 where "g2 = snd (random_uniform (fsub (Fin 0) (float_of_rat (1 / 10))) (float_of_rat (1 / 10)) g1)"
  have u1: "random_uniform (fsub (Fin 0) (float_of_rat (5 / 100))) (float_of_rat (5 / 100)) g = (dv, g1)"
    by (simp add: dv_def g1_def)
  have u2: "random_uniform (fsub (Fin 0) (float_of_rat (1 / 10))) (float_of_rat (1 / 10)) g1 = (di, g2)"
    by (simp add: di_def g2_def)
  have g2: "g2 = (\<lambda>n. g (Suc (Suc n)))"
    by (simp add: g2_def g1_def random_uniform_def random_random_def)
  have "double_like (py_max (Fin 0) (fadd (voltage config) dv))"
    by (intro double_like_py_max) simp_all
  from py_round_total [OF this, of 2] obtain v
    where v: "py_round (py_max (Fin 0) (fadd (voltage config) dv)) 2 = Inr v" by blast
  have "double_like (py_max (Fin 0) (fadd (current config) di))"
    by (intro double_like_py_max) simp_all
  from py_round_total [OF this, of 2] obtain c
    where c: "py_round (py_max (Fin 0) (fadd (current config) di)) 2 = Inr c" by blast
  have "perturb_cell config g = (Inr (config\<lparr>voltage := v, current := c\<rparr>), \<lambda>n. g (Suc (Suc n)))"
    by (simp only: perturb_cell_def u1 u2 prod.case Let_def v c g2 sum.case)
  moreover have "fle (Fin 0) v" by (rule py_round_nonneg [OF py_max_nonneg v])
  moreover have "fle (Fin 0) c" by (rule py_round_nonneg [OF py_max_nonneg c])
  ultimately show ?thesis using v c unfolding dv_def di_def g1_def by blast
qed

text \<open>
  C8, as stated, fails: the step stores the floored value rounded to two decimals. For a
  reading of 3.0 V and the draw 0.75, the variation is 0.02500000000000001, the floored
  sum is the float 3.025, and the voltage stored is 3.02.
\<close>

theorem perturbation_unrounded_counterexample:
  "fst (perturb_cell \<lparr>type = ''LFP'', voltage = float_of_rat 3, current = float_of_rat 1\<rparr> (\<lambda>n. if n = 0 then float_of_rat (3 / 4) else float_of_rat (1 / 2)))
     = Inr (\<lparr>type = ''LFP'', voltage = float_of_rat 3, current = float_of_rat 1\<rparr>\<lparr>voltage := Fin (6800435437329449 / 2251799813685248), current := Fin 1\<rparr>)
   \<and> py_max (Fin 0) (fadd (voltage \<lparr>type = ''LFP'', voltage = float_of_rat 3, current = float_of_rat 1\<rparr>)
        (fst (random_uniform (fsub (Fin 0) (float_of_rat (5 / 100))) (float_of_rat (5 / 100)) (\<lambda>n. if n = 0 then float_of_rat (3 / 4) else float_of_rat (1 / 2)))))
     = Fin (6811694436397875 / 2251799813685248)
   \<and> Fin (6800435437329449 / 2251799813685248) \<noteq> Fin (6811694436397875 / 2251799813685248)"
  by (simp add: perturb_cell_def random_uniform_def random_random_def Let_def
      float_lit_0_05 float_lit_0_1 float_lit_3_0 float_int_1 float_exact_0_75 float_exact_0_5
      tick_neg_0_05 tick_width_0_05 tick_scaled_v tick_dv tick_sum_v tick_round_v tick_dec_v
      tick_neg_0_1 tick_width_0_1 tick_scaled_c
      py_max_def fgt_def py_round_def)

text \<open>
  C8, amended: for every reading and every state of the random source, one perturbation
  step draws \<open>dv = uniform(-0.05, 0.05)\<close> and \<open>di = uniform(-0.1, 0.1)\<close> and sets the
  voltage to \<open>round(max(0, voltage + dv), 2)\<close> and the current to
  \<open>round(max(0, current + di), 2)\<close>; both are non-negative, and the chemistry of the
  reading is kept.
\<close>

theorem perturbation_step:
  "\<exists>v c.
      py_round (py_max (Fin 0) (fadd (voltage config)
        (fst (random_uniform (fsub (Fin 0) (float_of_rat (5 / 100))) (float_of_rat (5 / 100)) g)))) 2
        = Inr v
    \<and> py_round (py_max (Fin 0) (fadd (current config)
        (fst (random_uniform (fsub (Fin 0) (float_of_rat (1 / 10))) (float_of_rat (1 / 10))
           (snd (random_uniform (fsub (Fin 0) (float_of_rat (5 / 100))) (float_of_rat (5 / 100)) g)))))) 2
        = Inr c
    \<and> fst (perturb_cell config g) = Inr (config\<lparr>voltage := v, current := c\<rparr>)
    \<and> type (config\<lparr>voltage := v, current := c\<rparr>) = type config
    \<and> fle (Fin 0) v \<and> fle (Fin 0) c"
proof -
  from perturb_cell_result [of config g] obtain v c where
    "py_round (py_max (Fin 0) (fadd (voltage config)
        (fst (random_uniform (fsub (Fin 0) (float_of_rat (5 / 100))) (float_of_rat (5 / 100)) g)))) 2
        = Inr v"
    "py_round (py_max (Fin 0) (fadd (current config)
        (fst (random_uniform (fsub (Fin 0) (float_of_rat (1 / 10))) (float_of_rat (1 / 10))
           (snd (random_uniform (fsub (Fin 0) (float_of_rat (5 / 100))) (float_of_rat (5 / 100)) g)))))) 2
        = Inr c"
    "perturb_cell config g = (Inr (config\<lparr>voltage := v, current := c\<rparr>), \<lambda>n. g (Suc (Suc n)))"
    "fle (Fin 0) v" "fle (Fin 0) c" by blast
  then show ?thesis by (intro exI [of _ v] exI [of _ c]) simp
qed

theorem perturbation_step_witness:
  "\<exists>v c. fst (perturb_cell \<lparr>type = ''LFP'', voltage = float_of_rat 3, current = float_of_rat 1\<rparr> (\<lambda>n. if n = 0 then float_of_rat (3 / 4) else float_of_rat (1 / 2))) = Inr (\<lparr>type = ''LFP'', voltage = float_of_rat 3, current = float_of_rat 1\<rparr>\<lparr>voltage := v, current := c\<rparr>)
         \<and> fle (Fin 0) v \<and> fle (Fin 0) c"
  using perturbation_step [of "\<lparr>type = ''LFP'', voltage = float_of_rat 3, current = float_of_rat 1\<rparr>" "(\<lambda>n. if n = 0 then float_of_rat (3 / 4) else float_of_rat (1 / 2))"] by blast




section \<open>Batch evaluation on the store\<close>

lemma those_map_Some:
  "those (map f xs) = Some ys \<longleftrightarrow> list_all2 (\<lambda>x y. f x = Some y) xs ys"
proof (induction xs arbitrary: ys)
  case Nil
  then show ?case by auto
next
  case (Cons x xs)
  show ?case
    by (cases "f x"; cases "those (map f xs)"; cases ys)
       (auto simp: Cons.IH [symmetric])
qed

lemma store_get_append:
  "a < length h0 \<Longrightarrow> store_get (h0 @ t) a = store_get h0 a"
  by (simp add: store_get_def nth_append)

lemma store_get_Some_less: "store_get h a = Some x \<Longrightarrow> a < length h"
  by (simp add: store_get_def split: if_splits)

lemma store_get_append_Some:
  "store_get h0 a = Some x \<Longrightarrow> store_get (h0 @ t) a = Some x"
  using store_get_append [of a h0 t] store_get_Some_less [of h0 a x] by simp

lemma cell_types_refs_append:
  assumes "cell_types_refs h0 self = Inr refs"
  shows "cell_types_refs (h0 @ t) self = Inr refs"
proof -
  from assms obtain tb where a: "store_get h0 self = Some (Monitor_obj tb)"
    and b: "store_get h0 tb = Some (Dict_obj refs)"
    by (auto simp: cell_types_refs_def split: option.splits pyobj.splits)
  show ?thesis
    by (simp add: cell_types_refs_def store_get_append_Some [OF a] store_get_append_Some [OF b])
qed

lemma holds_specs_iff: "holds_specs h p \<longleftrightarrow> (\<exists>sp. store_get h p = Some (Specs_obj sp))"
  by (auto simp: holds_specs_def split: option.splits pyobj.splits)

lemma holds_reading_iff: "holds_reading h c \<longleftrightarrow> (\<exists>r. store_get h c = Some (Reading_obj r))"
  by (auto simp: holds_reading_def split: option.splits pyobj.splits)

lemma load_monitor_append:
  assumes refs: "cell_types_refs h0 self = Inr refs"
    and ok: "list_all (holds_specs h0) (map snd refs)"
  shows "load_monitor (h0 @ t) self = load_monitor h0 self"
proof -
  have "(case map_of refs k of None \<Rightarrow> None
          | Some p \<Rightarrow> (case store_get (h0 @ t) p of Some (Specs_obj sp) \<Rightarrow> Some sp | _ \<Rightarrow> None))
      = (case map_of refs k of None \<Rightarrow> None
          | Some p \<Rightarrow> (case store_get h0 p of Some (Specs_obj sp) \<Rightarrow> Some sp | _ \<Rightarrow> None))" for k
  proof (cases "map_of refs k")
    case None
    then show ?thesis by simp
  next
    case (Some p)
    then have "(k, p) \<in> set refs" by (rule map_of_SomeD)
    then have "p \<in> set (map snd refs)" by force
    with ok have "holds_specs h0 p" by (auto simp: list_all_iff)
    then obtain sp where "store_get h0 p = Some (Specs_obj sp)" by (auto simp: holds_specs_iff)
    then show ?thesis using Some by (simp add: store_get_append_Some)
  qed
  then show ?thesis
    by (simp add: load_monitor_def refs cell_types_refs_append [OF refs])
qed

lemma process_cell_specs:
  assumes "process_cell m i c g = (Inr cell, g')"
  shows "cell_types m (type c) = Some (Specs cell)"
  using assms
  by (auto simp: process_cell_def Let_def split: sum.splits prod.splits option.splits)

lemma cell_with_specs_twice [simp]: "cell_with_specs (cell_with_specs a p) (Specs a) = a"
  by (simp add: cell_with_specs_def)

lemma cell_with_specs_simps [simp]:
  "Cell_ID (cell_with_specs c x) = Cell_ID c" "Type (cell_with_specs c x) = Type c"
  "Voltage_V (cell_with_specs c x) = Voltage_V c" "Current_A (cell_with_specs c x) = Current_A c"
  "Power_W (cell_with_specs c x) = Power_W c" "Temperature_C (cell_with_specs c x) = Temperature_C c"
  "SOC (cell_with_specs c x) = SOC c" "Status (cell_with_specs c x) = Status c"
  "Specs (cell_with_specs c x) = x"
  by (simp_all add: cell_with_specs_def)

lemma store_after_length [simp]: "length (store_after h0 cells) = Suc (length h0 + length cells)"
  by (simp add: store_after_def)

lemma store_after_old:
  "store_get h0 a = Some x \<Longrightarrow> store_get (store_after h0 cells) a = Some x"
  unfolding store_after_def by (rule store_get_append_Some)

lemma store_after_list:
  "store_get (store_after h0 cells) (length h0)
     = Some (List_obj (map (\<lambda>j. Suc (length h0 + j)) [0..<length cells]))"
  by (simp add: store_after_def store_get_def)

lemma store_after_cell:
  "j < length cells \<Longrightarrow>
     store_get (store_after h0 cells) (Suc (length h0 + j)) = Some (Cell_obj (cells ! j))"
  by (simp add: store_after_def store_get_def nth_append)

lemma store_after_take [simp]: "take (length h0) (store_after h0 cells) = h0"
  by (simp add: store_after_def)

lemma store_after_snoc:
  "(store_after h0 cells @ [Cell_obj c])
     [length h0 := List_obj (map (\<lambda>j. Suc (length h0 + j)) [0..<length cells]
                              @ [length (store_after h0 cells)])]
   = store_after h0 (cells @ [c])"
  by (simp add: store_after_def list_update_append)

lemma load_monitor_refs:
  assumes "cell_types_refs h self = Inr refs"
  shows "load_monitor h self =
     Inr \<lparr>cell_types = (\<lambda>k. case map_of refs k of
                                None \<Rightarrow> None
                              | Some p \<Rightarrow> (case store_get h p of
                                             Some (Specs_obj sp) \<Rightarrow> Some sp
                                           | _ \<Rightarrow> None))\<rparr>"
  by (simp add: load_monitor_def assms)

lemma load_monitor_lookup:
  assumes "cell_types_refs h self = Inr refs" and "load_monitor h self = Inr m"
    and "cell_types m k = Some sp"
  shows "\<exists>p. map_of refs k = Some p \<and> store_get h p = Some (Specs_obj sp)"
  using assms
  by (auto simp: load_monitor_refs split: option.splits pyobj.splits)

lemma process_cell_store_step:
  assumes refs: "cell_types_refs h0 self = Inr refs"
    and ok: "list_all (holds_specs h0) (map snd refs)"
    and m: "load_monitor h0 self = Inr m"
    and c: "store_get h0 c = Some (Reading_obj config)"
  shows "process_cell m i config g = (Inl e, g1) \<Longrightarrow>
           process_cell_store self (length h0) c i (store_after h0 cells) g
             = (Inl e, store_after h0 cells, g1)"
    and "process_cell m i config g = (Inr cell, g1) \<Longrightarrow>
           \<exists>p. store_get h0 p = Some (Specs_obj (Specs cell))
             \<and> process_cell_store self (length h0) c i (store_after h0 cells) g
                 = (Inr (), store_after h0 (cells @ [cell_with_specs cell p]), g1)"
proof -
  let ?h = "store_after h0 cells"
  have c': "store_get ?h c = Some (Reading_obj config)" by (rule store_after_old [OF c])
  have m': "load_monitor ?h self = Inr m"
    unfolding store_after_def using load_monitor_append [OF refs ok] m by simp
  have refs': "cell_types_refs ?h self = Inr refs"
    unfolding store_after_def by (rule cell_types_refs_append [OF refs])
  show "process_cell m i config g = (Inl e, g1) \<Longrightarrow>
           process_cell_store self (length h0) c i ?h g = (Inl e, ?h, g1)"
    by (simp add: process_cell_store_def c' m')
  assume pc: "process_cell m i config g = (Inr cell, g1)"
  from process_cell_specs [OF pc] have "cell_types m (type config) = Some (Specs cell)" .
  from load_monitor_lookup [OF refs m this] obtain p where
    p: "map_of refs (type config) = Some p" "store_get h0 p = Some (Specs_obj (Specs cell))"
    by blast
  have l: "store_get (?h @ [Cell_obj (cell_with_specs cell p)]) (length h0)
             = Some (List_obj (map (\<lambda>j. Suc (length h0 + j)) [0..<length cells]))"
    by (rule store_get_append_Some [OF store_after_list])
  have "process_cell_store self (length h0) c i ?h g
          = (Inr (), store_after h0 (cells @ [cell_with_specs cell p]), g1)"
    unfolding process_cell_store_def
    by (simp only: c' m' pc refs' p(1) l Let_def option.case pyobj.case sum.case prod.case
        store_after_snoc)
  with p(2) show "\<exists>p. store_get h0 p = Some (Specs_obj (Specs cell))
             \<and> process_cell_store self (length h0) c i ?h g
                 = (Inr (), store_after h0 (cells @ [cell_with_specs cell p]), g1)" by blast
qed

lemma process_cells_loop_store_inv:
  assumes refs: "cell_types_refs h0 self = Inr refs"
    and ok: "list_all (holds_specs h0) (map snd refs)"
    and m: "load_monitor h0 self = Inr m"
    and cs: "store_get h0 cfg = Some (List_obj cs)"
    and rd: "list_all2 (\<lambda>c r. store_get h0 c = Some (Reading_obj r)) cs configs"
  shows "n = length cs - idx \<Longrightarrow> idx \<le> length cs \<Longrightarrow> length cells = idx \<Longrightarrow>
     list_all2 (\<lambda>a c. \<exists>p. c = cell_with_specs a p \<and> store_get h0 p = Some (Specs_obj (Specs a)))
       acc cells \<Longrightarrow>
     \<exists>r acc' cells'.
        process_cells_loop_store self cfg (length h0) idx (store_after h0 cells) g
          = Some (r, store_after h0 cells',
                  snd (process_cells_loop m (Suc idx) (drop idx configs) acc g))
      \<and> list_all2 (\<lambda>a c. \<exists>p. c = cell_with_specs a p \<and> store_get h0 p = Some (Specs_obj (Specs a)))
           acc' cells'
      \<and> (case r of
            Inl e \<Rightarrow> fst (process_cells_loop m (Suc idx) (drop idx configs) acc g) = Inl e
          | Inr cd \<Rightarrow> cd = length h0
              \<and> fst (process_cells_loop m (Suc idx) (drop idx configs) acc g) = Inr acc')"
proof (induction n arbitrary: idx cells acc g)
  case 0
  from rd have len: "length configs = length cs" by (simp add: list_all2_lengthD)
  from 0 have "idx = length cs" by simp
  then have d: "drop idx configs = []" using len by simp
  have l: "store_get (store_after h0 cells) cfg = Some (List_obj cs)"
    by (rule store_after_old [OF cs])
  have "process_cells_loop_store self cfg (length h0) idx (store_after h0 cells) g
          = Some (Inr (length h0), store_after h0 cells, g)"
    by (subst process_cells_loop_store.simps) (simp add: l \<open>idx = length cs\<close>)
  with 0 d show ?case by (intro exI [of _ "Inr (length h0)"] exI [of _ acc] exI [of _ cells]) simp
next
  case (Suc n)
  from rd have len: "length configs = length cs" by (simp add: list_all2_lengthD)
  from Suc have lt: "idx < length cs" by simp
  then have d: "drop idx configs = configs ! idx # drop (Suc idx) configs"
    using len by (simp add: Cons_nth_drop_Suc)
  from rd lt have c: "store_get h0 (cs ! idx) = Some (Reading_obj (configs ! idx))"
    by (simp add: list_all2_conv_all_nth)
  have l: "store_get (store_after h0 cells) cfg = Some (List_obj cs)"
    by (rule store_after_old [OF cs])
  obtain r1 g1 where pc: "process_cell m (Suc idx) (configs ! idx) g = (r1, g1)"
    by (cases "process_cell m (Suc idx) (configs ! idx) g")
  show ?case
  proof (cases r1)
    case (Inl e)
    from process_cell_store_step(1) [OF refs ok m c, of "Suc idx" g e g1 cells] pc Inl
    have st: "process_cell_store self (length h0) (cs ! idx) (Suc idx) (store_after h0 cells) g
             = (Inl e, store_after h0 cells, g1)" by simp
    have "process_cells_loop_store self cfg (length h0) idx (store_after h0 cells) g
          = Some (Inl e, store_after h0 cells, g1)"
      using lt by (subst process_cells_loop_store.simps) (simp add: l st)
    moreover have "process_cells_loop m (Suc idx) (drop idx configs) acc g = (Inl e, g1)"
      by (simp add: d pc Inl)
    ultimately show ?thesis using Suc.prems(4)
      by (intro exI [of _ "Inl e"] exI [of _ acc] exI [of _ cells]) simp
  next
    case (Inr cell)
    from process_cell_store_step(2) [OF refs ok m c, of "Suc idx" g cell g1 cells] pc Inr
    obtain p where p: "store_get h0 p = Some (Specs_obj (Specs cell))"
      and st: "process_cell_store self (length h0) (cs ! idx) (Suc idx) (store_after h0 cells) g
             = (Inr (), store_after h0 (cells @ [cell_with_specs cell p]), g1)" by auto
    have unfold: "process_cells_loop_store self cfg (length h0) idx (store_after h0 cells) g
          = process_cells_loop_store self cfg (length h0) (Suc idx)
              (store_after h0 (cells @ [cell_with_specs cell p])) g1"
      using lt by (subst process_cells_loop_store.simps) (simp add: l st)
    have f: "process_cells_loop m (Suc idx) (drop idx configs) acc g
          = process_cells_loop m (Suc (Suc idx)) (drop (Suc idx) configs) (acc @ [cell]) g1"
      by (simp add: d pc Inr)
    have a: "n = length cs - Suc idx" using Suc.prems(1) by simp
    have b: "Suc idx \<le> length cs" using lt by simp
    have e: "length (cells @ [cell_with_specs cell p]) = Suc idx" using Suc.prems(3) by simp
    have r: "list_all2 (\<lambda>a c. \<exists>p. c = cell_with_specs a p \<and> store_get h0 p = Some (Specs_obj (Specs a)))
       (acc @ [cell]) (cells @ [cell_with_specs cell p])"
      using Suc.prems(4) p by (auto intro!: list_all2_appendI)
    from Suc.IH [OF a b e r, of g1] show ?thesis unfolding unfold f .
  qed
qed

lemma holds_reading_list:
  "list_all (holds_reading h) cs \<Longrightarrow>
     \<exists>configs. list_all2 (\<lambda>c r. store_get h c = Some (Reading_obj r)) cs configs"
proof (induction cs)
  case Nil
  then show ?case by simp
next
  case (Cons c cs)
  then obtain r configs where "store_get h c = Some (Reading_obj r)"
    and "list_all2 (\<lambda>c r. store_get h c = Some (Reading_obj r)) cs configs"
    by (auto simp: holds_reading_iff)
  then have "list_all2 (\<lambda>c r. store_get h c = Some (Reading_obj r)) (c # cs) (r # configs)"
    by simp
  then show ?case by blast
qed

lemma load_readings_eq:
  assumes "store_get h cfg = Some (List_obj cs)"
    and "list_all2 (\<lambda>c r. store_get h c = Some (Reading_obj r)) cs configs"
  shows "load_readings h cfg = Some configs"
proof -
  have "list_all2 (\<lambda>c r. load_reading h c = Some r) cs configs"
    using assms(2) by (rule list_all2_mono) (simp add: load_reading_def)
  then show ?thesis by (simp add: load_readings_def assms(1) those_map_Some)
qed

lemma load_cells_store_after:
  assumes "list_all2 (\<lambda>a c. \<exists>p. c = cell_with_specs a p \<and> store_get h0 p = Some (Specs_obj (Specs a)))
             acc cells"
  shows "load_cells (store_after h0 cells) (length h0) = Some acc"
proof -
  from assms have len: "length acc = length cells" by (rule list_all2_lengthD)
  have "list_all2 (\<lambda>a y. load_cell (store_after h0 cells) a = Some y)
          (map (\<lambda>j. Suc (length h0 + j)) [0..<length cells]) acc"
  proof (rule list_all2_all_nthI)
    show "length (map (\<lambda>j. Suc (length h0 + j)) [0..<length cells]) = length acc"
      using len by simp
  next
    fix n assume "n < length (map (\<lambda>j. Suc (length h0 + j)) [0..<length cells])"
    then have n: "n < length cells" by simp
    from assms n len obtain p where p: "cells ! n = cell_with_specs (acc ! n) p"
      "store_get h0 p = Some (Specs_obj (Specs (acc ! n)))"
      by (auto simp: list_all2_conv_all_nth)
    have "load_cell (store_after h0 cells) (Suc (length h0 + n)) = Some (acc ! n)"
      by (simp add: load_cell_def store_after_cell [OF n] p(1) store_after_old [OF p(2)])
    then show "load_cell (store_after h0 cells)
                 (map (\<lambda>j. Suc (length h0 + j)) [0..<length cells] ! n) = Some (acc ! n)"
      using n by simp
  qed
  then show ?thesis
    by (simp only: load_cells_def store_after_list option.case pyobj.case those_map_Some)
qed

lemma process_cells_data_store_correct:
  assumes "wf_store h self cfg"
  shows "\<exists>m configs r cells acc.
           load_monitor h self = Inr m
         \<and> load_readings h cfg = Some configs
         \<and> process_cells_data_store self cfg h g
             = Some (r, store_after h cells, snd (process_cells_data m configs g))
         \<and> load_monitor (store_after h cells) self = Inr m
         \<and> load_readings (store_after h cells) cfg = Some configs
         \<and> load_cells (store_after h cells) (length h) = Some acc
         \<and> (case r of
               Inl e \<Rightarrow> fst (process_cells_data m configs g) = Inl e
             | Inr cd \<Rightarrow> cd = length h \<and> fst (process_cells_data m configs g) = Inr acc)"
proof -
  from assms obtain refs cs where refs: "cell_types_refs h self = Inr refs"
    and ok: "list_all (holds_specs h) (map snd refs)"
    and cs: "store_get h cfg = Some (List_obj cs)"
    and rdl: "list_all (holds_reading h) cs"
    by (auto simp: wf_store_def split: sum.splits option.splits pyobj.splits)
  from holds_reading_list [OF rdl] obtain configs where
    rd: "list_all2 (\<lambda>c r. store_get h c = Some (Reading_obj r)) cs configs" by blast
  obtain m where m: "load_monitor h self = Inr m" by (simp add: load_monitor_refs [OF refs])
  have lr: "load_readings h cfg = Some configs" by (rule load_readings_eq [OF cs rd])
  have start: "h @ [List_obj []] = store_after h []" by (simp add: store_after_def)
  have "\<exists>r acc cells.
        process_cells_loop_store self cfg (length h) 0 (store_after h []) g
          = Some (r, store_after h cells,
                  snd (process_cells_loop m (Suc 0) (drop 0 configs) [] g))
      \<and> list_all2 (\<lambda>a c. \<exists>p. c = cell_with_specs a p \<and> store_get h p = Some (Specs_obj (Specs a)))
           acc cells
      \<and> (case r of
            Inl e \<Rightarrow> fst (process_cells_loop m (Suc 0) (drop 0 configs) [] g) = Inl e
          | Inr cd \<Rightarrow> cd = length h
              \<and> fst (process_cells_loop m (Suc 0) (drop 0 configs) [] g) = Inr acc)"
    by (rule process_cells_loop_store_inv [OF refs ok m cs rd, of "length cs" 0 "[]" "[]" g])
       simp_all
  then obtain r acc cells where
    run: "process_cells_loop_store self cfg (length h) 0 (store_after h []) g
          = Some (r, store_after h cells, snd (process_cells_loop m (Suc 0) configs [] g))"
    and rel: "list_all2 (\<lambda>a c. \<exists>p. c = cell_with_specs a p \<and> store_get h p = Some (Specs_obj (Specs a)))
           acc cells"
    and res: "case r of
            Inl e \<Rightarrow> fst (process_cells_loop m (Suc 0) configs [] g) = Inl e
          | Inr cd \<Rightarrow> cd = length h
              \<and> fst (process_cells_loop m (Suc 0) configs [] g) = Inr acc"
    unfolding drop_0 by blast
  have a: "process_cells_data_store self cfg h g
             = Some (r, store_after h cells, snd (process_cells_data m configs g))"
    using run by (simp add: process_cells_data_store_def process_cells_data_def start)
  have b: "load_monitor (store_after h cells) self = Inr m"
    unfolding store_after_def using load_monitor_append [OF refs ok] m by simp
  have "list_all2 (\<lambda>c r. store_get (store_after h cells) c = Some (Reading_obj r)) cs configs"
    using rd by (rule list_all2_mono) (rule store_after_old)
  with store_after_old [OF cs] have c: "load_readings (store_after h cells) cfg = Some configs"
    by (rule load_readings_eq)
  have d: "load_cells (store_after h cells) (length h) = Some acc"
    by (rule load_cells_store_after [OF rel])
  have e: "case r of
               Inl e \<Rightarrow> fst (process_cells_data m configs g) = Inl e
             | Inr cd \<Rightarrow> cd = length h \<and> fst (process_cells_data m configs g) = Inr acc"
    using res unfolding process_cells_data_def One_nat_def .
  from m lr a b c d e show ?thesis by blast
qed

lemma example_store_wf: "wf_store example_store 5 8"
  by (simp add: wf_store_def example_store_def cell_types_refs_def store_get_def
      holds_specs_def holds_reading_def)

lemma example_store_monitor: "load_monitor example_store 5 = Inr init"
  by (auto simp: load_monitor_def example_store_def cell_types_refs_def store_get_def
      init_def fun_eq_iff)

lemma example_store_readings:
  "load_readings example_store 8
     = Some [\<lparr>type = ''LFP'', voltage = float_of_rat (32 / 10), current = float_of_rat 1\<rparr>,
             \<lparr>type = ''NMC'', voltage = float_of_rat (36 / 10), current = float_of_rat 1\<rparr>]"
  by (simp add: load_readings_def load_reading_def example_store_def store_get_def)

text \<open>
  C7: on a store in which the monitor leads to its table and profiles and the sequence
  holds readings, batch evaluation returns, and every object that was in the store (the
  sequence, each reading in it, the monitor, the table and each profile) is in it
  unchanged; the list returned and the records in it are new objects after them. The
  exception or the records are those of \<open>process_cells_data\<close> on the monitor and the
  readings as values.
\<close>

theorem batch_leaves_inputs_unchanged:
  assumes "wf_store h self cfg"
  shows "\<exists>r h' g' m configs.
           process_cells_data_store self cfg h g = Some (r, h', g')
         \<and> length h < length h' \<and> take (length h) h' = h
         \<and> load_monitor h self = Inr m \<and> load_monitor h' self = Inr m
         \<and> load_readings h cfg = Some configs \<and> load_readings h' cfg = Some configs
         \<and> g' = snd (process_cells_data m configs g)
         \<and> (case r of
               Inl e \<Rightarrow> fst (process_cells_data m configs g) = Inl e
             | Inr cd \<Rightarrow> cd = length h
                 \<and> (\<exists>xs. store_get h' cd = Some (List_obj xs) \<and> list_all (\<lambda>a. length h < a) xs)
                 \<and> (\<exists>rs. load_cells h' cd = Some rs
                          \<and> fst (process_cells_data m configs g) = Inr rs))"
proof -
  from process_cells_data_store_correct [OF assms, of g] obtain m configs r cells acc where
    f: "load_monitor h self = Inr m"
       "load_readings h cfg = Some configs"
       "process_cells_data_store self cfg h g
             = Some (r, store_after h cells, snd (process_cells_data m configs g))"
       "load_monitor (store_after h cells) self = Inr m"
       "load_readings (store_after h cells) cfg = Some configs"
       "load_cells (store_after h cells) (length h) = Some acc"
       "case r of
               Inl e \<Rightarrow> fst (process_cells_data m configs g) = Inl e
             | Inr cd \<Rightarrow> cd = length h \<and> fst (process_cells_data m configs g) = Inr acc"
    by blast
  have fresh: "list_all (\<lambda>a. length h < a) (map (\<lambda>j. Suc (length h + j)) [0..<length cells])"
    by (simp add: list_all_iff)
  have res: "case r of
               Inl e \<Rightarrow> fst (process_cells_data m configs g) = Inl e
             | Inr cd \<Rightarrow> cd = length h
                 \<and> (\<exists>xs. store_get (store_after h cells) cd = Some (List_obj xs)
                        \<and> list_all (\<lambda>a. length h < a) xs)
                 \<and> (\<exists>rs. load_cells (store_after h cells) cd = Some rs
                          \<and> fst (process_cells_data m configs g) = Inr rs)"
  proof (cases r)
    case (Inl e)
    with f(7) show ?thesis by simp
  next
    case (Inr cd)
    with f(7) have "cd = length h" "fst (process_cells_data m configs g) = Inr acc" by simp_all
    with Inr f(6) fresh store_after_list [of h cells] show ?thesis by auto
  qed
  have "length h < length (store_after h cells)" by simp
  with f(1-5) res show ?thesis
    by (intro exI [of _ r] exI [of _ "store_after h cells"]
        exI [of _ "snd (process_cells_data m configs g)"] exI [of _ m] exI [of _ configs])
       (simp only: store_after_take simp_thms)
qed

theorem batch_leaves_inputs_unchanged_witness:
  "wf_store example_store 5 8
   \<and> (\<exists>r h' g'. process_cells_data_store 5 8 example_store (\<lambda>n. Fin 0) = Some (r, h', g')
         \<and> take (length example_store) h' = example_store
         \<and> load_readings h' 8
             = Some [\<lparr>type = ''LFP'', voltage = float_of_rat (32 / 10), current = float_of_rat 1\<rparr>,
                     \<lparr>type = ''NMC'', voltage = float_of_rat (36 / 10), current = float_of_rat 1\<rparr>])"
proof -
  from batch_leaves_inputs_unchanged [OF example_store_wf, of "\<lambda>n. Fin 0"]
  obtain r h' g' m configs where
    "process_cells_data_store 5 8 example_store (\<lambda>n. Fin 0) = Some (r, h', g')"
    "take (length example_store) h' = example_store"
    "load_readings example_store 8 = Some configs" "load_readings h' 8 = Some configs"
    by blast
  then have "\<exists>r h' g'. process_cells_data_store 5 8 example_store (\<lambda>n. Fin 0) = Some (r, h', g')
         \<and> take (length example_store) h' = example_store
         \<and> load_readings h' 8
             = Some [\<lparr>type = ''LFP'', voltage = float_of_rat (32 / 10), current = float_of_rat 1\<rparr>,
                     \<lparr>type = ''NMC'', voltage = float_of_rat (36 / 10), current = float_of_rat 1\<rparr>]"
    using example_store_readings by (intro exI [of _ r] exI [of _ h'] exI [of _ g']) simp
  with example_store_wf show ?thesis by (rule conjI)
qed

text \<open>
  C9: the table built at startup holds only the four chemistries, each of them with
  \<open>minimum_voltage < nominal_voltage < maximum_voltage\<close>; and on every store whose
  monitor reads as this table, batch evaluation leaves every object of the store
  unchanged, so the monitor reads as the same table afterwards.
\<close>

theorem profile_invariant:
  assumes "cell_types init t = Some sp"
  shows "t \<in> {''LFP'', ''NMC'', ''LCO'', ''LTO''}
       \<and> flt (minimum_voltage sp) (nominal_voltage sp)
       \<and> flt (nominal_voltage sp) (maximum_voltage sp)
       \<and> (wf_store h self cfg \<and> load_monitor h self = Inr init \<longrightarrow>
            (\<exists>r h' g'. process_cells_data_store self cfg h g = Some (r, h', g')
               \<and> take (length h) h' = h
               \<and> load_monitor h' self = Inr init))"
proof -
  have "t \<in> dom (cell_types init)" using assms by blast
  then have a: "t \<in> {''LFP'', ''NMC'', ''LCO'', ''LTO''}" by (simp only: init_dom)
  have b: "wf_store h self cfg \<and> load_monitor h self = Inr init \<longrightarrow>
            (\<exists>r h' g'. process_cells_data_store self cfg h g = Some (r, h', g')
               \<and> take (length h) h' = h
               \<and> load_monitor h' self = Inr init)"
  proof
    assume w: "wf_store h self cfg \<and> load_monitor h self = Inr init"
    from process_cells_data_store_correct [of h self cfg g] w obtain m configs r cells where
      "load_monitor h self = Inr m"
      "process_cells_data_store self cfg h g
             = Some (r, store_after h cells, snd (process_cells_data m configs g))"
      "load_monitor (store_after h cells) self = Inr m"
      by blast
    with w show "\<exists>r h' g'. process_cells_data_store self cfg h g = Some (r, h', g')
               \<and> take (length h) h' = h
               \<and> load_monitor h' self = Inr init"
      by (intro exI [of _ r] exI [of _ "store_after h cells"]
        exI [of _ "snd (process_cells_data m configs g)"]) simp
  qed
  from a profile_order [OF assms] b show ?thesis by (intro conjI) simp_all
qed

theorem profile_invariant_witness:
  "cell_types init ''LTO'' =
     Some \<lparr>nominal_voltage = float_of_rat (24 / 10), minimum_voltage = float_of_rat (15 / 10),
           maximum_voltage = float_of_rat (28 / 10), name = ''Lithium Titanate Oxide''\<rparr>
   \<and> flt (float_of_rat (15 / 10)) (float_of_rat (24 / 10))
   \<and> flt (float_of_rat (24 / 10)) (float_of_rat (28 / 10))
   \<and> wf_store example_store 5 8
   \<and> load_monitor example_store 5 = Inr init
   \<and> (\<exists>r h' g'. process_cells_data_store 5 8 example_store (\<lambda>n. Fin 0) = Some (r, h', g')
         \<and> take (length example_store) h' = example_store
         \<and> load_monitor h' 5 = Inr init)"
proof -
  let ?sp = "\<lparr>nominal_voltage = float_of_rat (24 / 10), minimum_voltage = float_of_rat (15 / 10),
           maximum_voltage = float_of_rat (28 / 10), name = ''Lithium Titanate Oxide''\<rparr>"
  have h: "cell_types init ''LTO'' = Some ?sp" by (simp add: init_def)
  note p = profile_invariant [OF h, of example_store 5 8 "\<lambda>n. Fin 0"]
  from p have "flt (minimum_voltage ?sp) (nominal_voltage ?sp)"
    and "flt (nominal_voltage ?sp) (maximum_voltage ?sp)" by blast+
  then have a: "flt (float_of_rat (15 / 10)) (float_of_rat (24 / 10))"
    and b: "flt (float_of_rat (24 / 10)) (float_of_rat (28 / 10))" by (simp_all only: specs.simps)
  from p example_store_wf example_store_monitor
  have c: "\<exists>r h' g'. process_cells_data_store 5 8 example_store (\<lambda>n. Fin 0) = Some (r, h', g')
         \<and> take (length example_store) h' = example_store
         \<and> load_monitor h' 5 = Inr init" by blast
  from h a b example_store_wf example_store_monitor c show ?thesis by (intro conjI)
qed

end
